theory Spec2Isabelle
  imports Main "HOL-Library.AList" "HOL-Library.Sublist"
begin

section \<open>Python values, exceptions and collaborator effects\<close>

text \<open>
  The values the audio API interface of \<^verbatim>\<open>redbot/cogs/audio/apis/interface.py\<close> passes
  around are dynamically typed: JSON-like dictionaries, lists, tuples, strings and
  \<^verbatim>\<open>None\<close>. A dictionary is an association list in insertion order.
\<close>

datatype pyval =
    PNone
  | PBool bool
  | PInt int
  | PStr string
  | PList "pyval list"
  | PTuple "pyval list"
  | PDict "(string \<times> pyval) list"

text \<open>Python truthiness (\<^verbatim>\<open>if x\<close>, \<^verbatim>\<open>not x\<close>).\<close>

fun truthy :: "pyval \<Rightarrow> bool" where
  "truthy PNone = False"
| "truthy (PBool b) = b"
| "truthy (PInt i) = (i \<noteq> 0)"
| "truthy (PStr s) = (s \<noteq> [])"
| "truthy (PList xs) = (xs \<noteq> [])"
| "truthy (PTuple xs) = (xs \<noteq> [])"
| "truthy (PDict kvs) = (kvs \<noteq> [])"

text \<open>\<^verbatim>\<open>isinstance(x, list)\<close> and \<^verbatim>\<open>isinstance(x, dict)\<close>.\<close>

fun is_list :: "pyval \<Rightarrow> bool" where
  "is_list (PList xs) = True"
| "is_list v = False"

fun is_dict :: "pyval \<Rightarrow> bool" where
  "is_dict (PDict kvs) = True"
| "is_dict v = False"

text \<open>
  The exceptions the module raises, catches or lets through. \<open>StorageError\<close> stands for
  any other \<^verbatim>\<open>Exception\<close> of a storage backend.
\<close>

datatype exn =
    AttributeError
  | KeyError
  | TypeError
  | RuntimeError
  | TimeoutError
  | ServerDisconnectedError
  | TrackEnqueueError
  | SpotifyFetchError string
  | DatabaseError string
  | StorageError

text \<open>A \<^verbatim>\<open>lavalink.Track\<close>, with the attributes the module reads.\<close>

datatype track = Track (title: string) (author: string) (uri: string)

text \<open>
  Everything the module does to its collaborators is recorded, in order, in a log of
  effects: storage writes, provider calls, notifier calls, player calls and the
  exceptions handed to \<^verbatim>\<open>debug_exc_log\<close>.
\<close>

datatype effect =
    DbInsert string pyval
  | DbUpdate string pyval
  | DebugExcLog exn
  | SpotifyFetchTracks string string
  | YouTubeGetCall pyval
  | LoadTracks string
  | IsAllowed string
  | NotifyUser nat nat string
  | UpdateEmbed string
  | Lock
  | PlayerAdd track
  | Dispatch string track
  | PlayerPlay
  | MaybeShuffle

section \<open>The deferred write queue\<close>

text \<open>
  \<^verbatim>\<open>self._tasks\<close> maps a request id to a dictionary with the three keys
  \<^verbatim>\<open>"update"\<close>, \<^verbatim>\<open>"insert"\<close> and \<^verbatim>\<open>"global"\<close>, each holding the list of staged tasks. A
  staged task is the tuple \<^verbatim>\<open>(table, data)\<close>. The outer dictionary keeps insertion order,
  which \<^verbatim>\<open>run_all_pending_tasks\<close> iterates over.
\<close>

datatype event = Update | Insert | Global

type_synonym pending = "event \<Rightarrow> pyval list"

record state =
  tasks :: "(nat \<times> pending) list"
  effects :: "effect list"

record ctx =
  ctx_message_id :: nat

definition emit :: "effect \<Rightarrow> state \<Rightarrow> state" where
  "emit e st = st\<lparr>effects := effects st @ [e]\<rparr>"

definition empty_pending :: pending where
  "empty_pending = (\<lambda>t. [])"

text \<open>
  \<^verbatim>\<open>append_task(ctx, event, task, _id=None)\<close>: \<^verbatim>\<open>lock_id = _id or ctx.message.id\<close>, so an
  \<^verbatim>\<open>_id\<close> of \<^verbatim>\<open>None\<close> or \<^verbatim>\<open>0\<close> falls back to the context's message id.
\<close>

definition append_task :: "ctx \<Rightarrow> event \<Rightarrow> pyval \<Rightarrow> nat option \<Rightarrow> state \<Rightarrow> state" where
  "append_task c ev task id_arg st =
     (let lock_id = (case id_arg of
                       None \<Rightarrow> ctx_message_id c
                     | Some i \<Rightarrow> if i = 0 then ctx_message_id c else i);
          ts = (if map_of (tasks st) lock_id = None
                then AList.update lock_id empty_pending (tasks st)
                else tasks st);
          cur = (case map_of ts lock_id of None \<Rightarrow> empty_pending | Some p \<Rightarrow> p)
      in st\<lparr>tasks := AList.update lock_id (cur(ev := cur ev @ [task])) ts\<rparr>)"

text \<open>
  The storage backend: \<open>db table action data\<close> is the exception the write raises, if any.
\<close>

type_synonym storage = "string \<Rightarrow> event \<Rightarrow> pyval \<Rightarrow> exn option"

definition db_insert :: "storage \<Rightarrow> string \<Rightarrow> pyval \<Rightarrow> state \<Rightarrow> exn option \<times> state" where
  "db_insert db table data st = (db table Insert data, emit (DbInsert table data) st)"

definition db_update :: "storage \<Rightarrow> string \<Rightarrow> pyval \<Rightarrow> state \<Rightarrow> exn option \<times> state" where
  "db_update db table data st = (db table Update data, emit (DbUpdate table data) st)"

text \<open>
  \<^verbatim>\<open>route_tasks(action_type=None, table=None, data=None)\<close>. The result is the exception the
  coroutine ends with, if any.
\<close>

definition route_tasks ::
  "storage \<Rightarrow> pyval \<Rightarrow> pyval \<Rightarrow> pyval \<Rightarrow> state \<Rightarrow> exn option \<times> state" where
  "route_tasks db action_type table data st =
     (if \<not> truthy data then (None, st)
      else if action_type = PStr ''insert'' \<and> is_list data then
        (if table = PStr ''lavalink'' then db_insert db ''lavalink'' data st
         else if table = PStr ''youtube'' then db_insert db ''youtube'' data st
         else if table = PStr ''spotify'' then db_insert db ''spotify'' data st
         else (None, st))
      else if action_type = PStr ''update'' then
        (if table = PStr ''lavalink'' then db_update db ''lavalink'' data st
         else if table = PStr ''youtube'' then db_update db ''youtube'' data st
         else if table = PStr ''spotify'' then db_update db ''spotify'' data st
         else (None, st))
      else (None, st))"

text \<open>
  \<^verbatim>\<open>self.route_tasks(*args)\<close>: the positional arguments are bound to the three
  parameters, missing ones default to \<^verbatim>\<open>None\<close>, and more than three raise a
  \<^verbatim>\<open>TypeError\<close> at the call.
\<close>

fun bind_args :: "pyval list \<Rightarrow> exn + (pyval \<times> pyval \<times> pyval)" where
  "bind_args [] = Inr (PNone, PNone, PNone)"
| "bind_args [a] = Inr (a, PNone, PNone)"
| "bind_args [a, b] = Inr (a, b, PNone)"
| "bind_args [a, b, c] = Inr (a, b, c)"
| "bind_args (a # b # c # d # rest) = Inl TypeError"

text \<open>
  The list comprehension \<^verbatim>\<open>[self.route_tasks(*tasks[a]) for a in tasks]\<close>: the calls are
  made in the dictionary's key order, and the first call that cannot bind its arguments
  raises.
\<close>

fun build_calls :: "pyval list list \<Rightarrow> exn + (pyval \<times> pyval \<times> pyval) list" where
  "build_calls [] = Inr []"
| "build_calls (args # rest) =
     (case bind_args args of
        Inl e \<Rightarrow> Inl e
      | Inr call \<Rightarrow> (case build_calls rest of Inl e \<Rightarrow> Inl e | Inr calls \<Rightarrow> Inr (call # calls)))"

text \<open>
  \<^verbatim>\<open>asyncio.gather(*coroutines, return_exceptions=True)\<close>: every coroutine runs to its end,
  an exception is collected as that coroutine's result. The coroutines are run here one
  after the other, in the order given.
\<close>

fun gather ::
  "storage \<Rightarrow> (pyval \<times> pyval \<times> pyval) list \<Rightarrow> state \<Rightarrow> exn option list \<times> state" where
  "gather db [] st = ([], st)"
| "gather db ((action_type, table, data) # rest) st =
     (let (r, st1) = route_tasks db action_type table data st;
          (rs, st2) = gather db rest st1
      in (r # rs, st2))"

text \<open>
  The body of the \<^verbatim>\<open>try\<close> block of \<^verbatim>\<open>run_tasks\<close>: it reads and deletes
  \<^verbatim>\<open>self._tasks[ctx.message.id]\<close>, whatever \<^verbatim>\<open>lock_id\<close> is. The result is the exception the
  block ends with, if any.
\<close>

definition run_tasks_try :: "storage \<Rightarrow> ctx option \<Rightarrow> state \<Rightarrow> exn option \<times> state" where
  "run_tasks_try db c st =
     (case c of
        None \<Rightarrow> (Some AttributeError, st)
      | Some cx \<Rightarrow>
          (case map_of (tasks st) (ctx_message_id cx) of
             None \<Rightarrow> (Some KeyError, st)
           | Some ts \<Rightarrow>
               (let st1 = st\<lparr>tasks := AList.delete (ctx_message_id cx) (tasks st)\<rparr>
                in case build_calls [ts Update, ts Insert, ts Global] of
                     Inl e \<Rightarrow> (Some e, st1)
                   | Inr calls \<Rightarrow> (None, snd (gather db calls st1)))))"

text \<open>
  \<^verbatim>\<open>run_tasks(ctx=None, message_id=None)\<close>. \<^verbatim>\<open>Inl\<close> is an exception that reaches the
  caller; an exception of the \<^verbatim>\<open>try\<close> block is handed to \<^verbatim>\<open>debug_exc_log\<close>.
\<close>

definition run_tasks :: "storage \<Rightarrow> ctx option \<Rightarrow> nat option \<Rightarrow> state \<Rightarrow> exn + state" where
  "run_tasks db c message_id st =
     (case (case message_id of
              Some m \<Rightarrow> Inr m
            | None \<Rightarrow> (case c of None \<Rightarrow> Inl AttributeError | Some cx \<Rightarrow> Inr (ctx_message_id cx))) of
        Inl e \<Rightarrow> Inl e
      | Inr lock_id \<Rightarrow>
          if map_of (tasks st) lock_id \<noteq> None then
            (case run_tasks_try db c st of
               (Some e, st1) \<Rightarrow> Inr (emit (DebugExcLog e) st1)
             | (None, st1) \<Rightarrow> Inr st1)
          else Inr st)"

text \<open>
  \<^verbatim>\<open>run_all_pending_tasks\<close>: the staged lists of every request id are appended, per key,
  to one dictionary, whose three lists are then unpacked into \<^verbatim>\<open>route_tasks\<close>.
\<close>

definition collect_pending :: "(nat \<times> pending) list \<Rightarrow> event \<Rightarrow> pyval list" where
  "collect_pending ts ev = map (\<lambda>(k, task). PList (task ev)) ts"

definition run_all_pending_tasks_try :: "storage \<Rightarrow> state \<Rightarrow> exn option \<times> state" where
  "run_all_pending_tasks_try db st =
     (let all_tasks = collect_pending (tasks st);
          st1 = st\<lparr>tasks := []\<rparr>
      in case build_calls [all_tasks Update, all_tasks Insert, all_tasks Global] of
           Inl e \<Rightarrow> (Some e, st1)
         | Inr calls \<Rightarrow> (None, snd (gather db calls st1)))"

definition run_all_pending_tasks :: "storage \<Rightarrow> state \<Rightarrow> exn + state" where
  "run_all_pending_tasks db st =
     (case run_all_pending_tasks_try db st of
        (Some e, st1) \<Rightarrow> Inr (emit (DebugExcLog e) st1)
      | (None, st1) \<Rightarrow> Inr st1)"

section \<open>Cache tier policy\<close>

text \<open>
  Modelled from the spec: \<^verbatim>\<open>CacheLevel\<close> (\<^verbatim>\<open>redbot/cogs/audio/utils.py\<close>, not among the
  sources) is a set of cache scopes over Spotify, YouTube and the playable-track
  (Lavalink) provider, with the subset test \<^verbatim>\<open>A.is_subset(B)\<close>.
\<close>

datatype scope = SpotifyScope | YouTubeScope | LavalinkScope

type_synonym CacheLevel = "scope list"

definition set_spotify :: CacheLevel where
  "set_spotify = [SpotifyScope]"

definition set_youtube :: CacheLevel where
  "set_youtube = [YouTubeScope]"

definition set_lavalink :: CacheLevel where
  "set_lavalink = [LavalinkScope]"

definition is_subset :: "CacheLevel \<Rightarrow> CacheLevel \<Rightarrow> bool" where
  "is_subset a b = list_all (\<lambda>s. s \<in> set b) a"

section \<open>Collaborators\<close>

text \<open>
  A \<^verbatim>\<open>Query\<close> of \<^verbatim>\<open>audio_dataclasses\<close> with the attributes the module reads: its string
  form, \<^verbatim>\<open>is_local\<close>, \<^verbatim>\<open>valid\<close>, and whether \<^verbatim>\<open>local_track_path.exists()\<close>.
\<close>

record query =
  q_str :: string
  is_local :: bool
  valid :: bool
  local_track_exists :: bool

text \<open>
  A \<^verbatim>\<open>lavalink.rest_api.LoadResult\<close> with the attributes the module reads:
  \<^verbatim>\<open>load_type\<close>, \<^verbatim>\<open>has_error\<close>, \<^verbatim>\<open>tracks\<close> and the raw response \<^verbatim>\<open>_raw\<close>.
\<close>

record load_result =
  load_type :: pyval
  has_error :: bool
  tracks :: "track list"
  raw :: pyval

text \<open>
  A \<^verbatim>\<open>lavalink.Player\<close> with what the module reads and changes: the queue, to which
  \<^verbatim>\<open>player.add\<close> appends, and the current track.
\<close>

record player =
  queue :: "track list"
  current :: "track option"

text \<open>\<^verbatim>\<open>Query.process_input\<close> takes a string, a \<^verbatim>\<open>Query\<close> or a track.\<close>

datatype qinput = FromValue pyval | FromQuery query | FromTrack track

text \<open>
  The collaborators of the interface, outside this module: the configuration, the three
  tables of the local cache (\<^verbatim>\<open>fetch_one\<close> returns a pair or raises), the Spotify and
  YouTube clients, the playable-track provider (\<^verbatim>\<open>player.load_tracks\<close> returns a result or
  \<^verbatim>\<open>None\<close>, or raises), the \<^verbatim>\<open>LoadResult\<close> constructor, the query normaliser,
  \<^verbatim>\<open>json.dumps\<close>, the content filter, the track-length limit, \<^verbatim>\<open>player.play\<close> and the
  clock.
  \<open>spotify_fetch_tracks\<close> is the outcome of the Spotify listing
  (\<^verbatim>\<open>_spotify_fetch_tracks\<close>), whose pagination is not modelled further.
\<close>

record env =
  cache_level :: CacheLevel
  spotify_fetch_one :: "string \<Rightarrow> exn + pyval \<times> pyval"
  youtube_fetch_one :: "pyval \<Rightarrow> exn + pyval \<times> pyval"
  lavalink_fetch_one :: "string \<Rightarrow> exn + pyval \<times> pyval"
  spotify_fetch_tracks :: "string \<Rightarrow> string \<Rightarrow> exn + pyval list"
  get_spotify_track_info :: "pyval \<Rightarrow> pyval \<times> pyval \<times> pyval \<times> pyval \<times> pyval \<times> pyval \<times> pyval"
  youtube_get_call :: "pyval \<Rightarrow> pyval"
  load_tracks :: "string \<Rightarrow> exn + load_result option"
  LoadResult :: "pyval \<Rightarrow> load_result"
  process_input :: "qinput \<Rightarrow> query"
  json_dumps :: "pyval \<Rightarrow> exn + string"
  is_allowed :: "string \<Rightarrow> bool"
  track_limit :: "track \<Rightarrow> int \<Rightarrow> bool"
  maxlength :: int
  player_play :: "player \<Rightarrow> player"
  time_now :: int

text \<open>A staged task \<^verbatim>\<open>(table, data)\<close>.\<close>

definition task :: "string \<Rightarrow> pyval \<Rightarrow> pyval" where
  "task table data = PTuple [PStr table, data]"

text \<open>
  A cache read at its call site: \<^verbatim>\<open>try: (val, update) = await fetch_one(...)\<close> with
  \<^verbatim>\<open>except Exception as exc: debug_exc_log(...)\<close>, \<^verbatim>\<open>val\<close> being \<^verbatim>\<open>None\<close> before.
\<close>

definition cache_read :: "(exn + pyval \<times> pyval) \<Rightarrow> state \<Rightarrow> pyval \<times> state" where
  "cache_read r st =
     (case r of
        Inl e \<Rightarrow> (PNone, emit (DebugExcLog e) st)
      | Inr (val, upd) \<Rightarrow> (val, st))"

section \<open>YouTube resolution\<close>

text \<open>\<^verbatim>\<open>_youtube_first_time_query\<close>: the call of the YouTube API.\<close>

definition youtube_first_time_query ::
  "env \<Rightarrow> ctx \<Rightarrow> pyval \<Rightarrow> CacheLevel \<Rightarrow> state \<Rightarrow> pyval \<times> state" where
  "youtube_first_time_query env c track_info current_cache_level st =
     (let st1 = emit (YouTubeGetCall track_info) st;
          track_url = youtube_get_call env track_info
      in if is_subset set_youtube current_cache_level \<and> truthy track_url then
           (track_url,
            append_task c Insert
              (task ''youtube''
                 (PList [PDict [(''track_info'', track_info), (''track_url'', track_url),
                                (''last_updated'', PInt (time_now env)),
                                (''last_fetched'', PInt (time_now env))]]))
              None st1)
         else (track_url, st1))"

definition youtube_query :: "env \<Rightarrow> ctx \<Rightarrow> pyval \<Rightarrow> state \<Rightarrow> pyval \<times> state" where
  "youtube_query env c track_info st =
     (let current_cache_level = cache_level env;
          cache_enabled = is_subset set_youtube current_cache_level;
          (val, st1) = (if cache_enabled then cache_read (youtube_fetch_one env track_info) st
                        else (PNone, st))
      in if val = PNone then youtube_first_time_query env c track_info current_cache_level st1
         else (val,
               if cache_enabled
               then append_task c Update (task ''youtube'' (PDict [(''track'', track_info)])) None st1
               else st1))"

section \<open>Playable-track fetch\<close>

text \<open>\<^verbatim>\<open>k in data\<close> on strings: \<open>k\<close> occurs in \<open>data\<close> as a substring.\<close>

fun starts_with :: "string \<Rightarrow> string \<Rightarrow> bool" where
  "starts_with [] s = True"
| "starts_with (k # ks) [] = False"
| "starts_with (k # ks) (c # cs) = (k = c \<and> starts_with ks cs)"

fun contains :: "string \<Rightarrow> string \<Rightarrow> bool" where
  "contains k [] = (k = [])"
| "contains k (c # cs) = (starts_with k (c # cs) \<or> contains k cs)"

text \<open>
  The cache lookup of \<^verbatim>\<open>fetch_track\<close>, entered when the Lavalink scope is enabled, the
  call is not forced and the query is not local. A truthy dictionary stages a timestamp
  update; anything else counts as no value.
\<close>

definition fetch_track_cache :: "env \<Rightarrow> ctx \<Rightarrow> string \<Rightarrow> state \<Rightarrow> pyval \<times> state" where
  "fetch_track_cache env c q st =
     (let (val, st1) = cache_read (lavalink_fetch_one env q) st
      in if truthy val \<and> is_dict val then
           (val, append_task c Update (task ''lavalink'' (PDict [(''query'', PStr q)])) None st1)
         else (PNone, st1))"

text \<open>
  \<^verbatim>\<open>data = val; data["query"] = query\<close> and the renaming of the load type
  \<^verbatim>\<open>V2_COMPACT\<close>, on the cached dictionary.
\<close>

fun cached_data :: "pyval \<Rightarrow> string \<Rightarrow> pyval" where
  "cached_data (PDict kvs) q =
     (let d = AList.update ''query'' (PStr q) kvs
      in if map_of d ''loadType'' = Some (PStr ''V2_COMPACT'')
         then PDict (AList.update ''loadType'' (PStr ''V2_COMPAT'') d)
         else PDict d)"
| "cached_data v q = v"

definition load_failed :: pyval where
  "load_failed =
     PDict [(''loadType'', PStr ''LOAD_FAILED''), (''playlistInfo'', PDict []), (''tracks'', PList [])]"

definition shape_keys :: "string list" where
  "shape_keys = [''loadType'', ''playlistInfo'', ''isSeekable'', ''isStream'']"

text \<open>
  The end of \<^verbatim>\<open>fetch_track\<close>: a missing result becomes the \<^verbatim>\<open>LOAD_FAILED\<close> result, and a
  result worth caching is staged as an insert into the Lavalink table.
\<close>

definition fetch_track_finish ::
  "env \<Rightarrow> ctx \<Rightarrow> bool \<Rightarrow> query \<Rightarrow> load_result option \<Rightarrow> bool \<Rightarrow> state
     \<Rightarrow> (exn + load_result \<times> bool) \<times> state" where
  "fetch_track_finish env c cache_enabled raw_query results0 called_api st =
     (let results = (case results0 of None \<Rightarrow> LoadResult env load_failed | Some r \<Rightarrow> r);
          st1 =
            (if cache_enabled \<and> truthy (load_type results) \<and> \<not> has_error results
                \<and> \<not> is_local raw_query \<and> tracks results \<noteq> [] then
               (case json_dumps env (raw results) of
                  Inl e \<Rightarrow> emit (DebugExcLog e) st
                | Inr data \<Rightarrow>
                    if list_all (\<lambda>k. contains k data) shape_keys then
                      append_task c Insert
                        (task ''lavalink''
                           (PList [PDict [(''query'', PStr (q_str raw_query)), (''data'', PStr data),
                                          (''last_updated'', PInt (time_now env)),
                                          (''last_fetched'', PInt (time_now env))]]))
                        None st
                    else st)
             else st)
      in (Inr (results, called_api), st1))"

text \<open>
  \<^verbatim>\<open>fetch_track(ctx, player, query, forced=False, lazy=False)\<close>. The result is the pair
  \<^verbatim>\<open>(results, called_api)\<close> or the exception that reaches the caller. A cached result that
  reports an error makes the function call itself with \<^verbatim>\<open>forced=True\<close>.
\<close>

function fetch_track ::
  "env \<Rightarrow> ctx \<Rightarrow> query \<Rightarrow> bool \<Rightarrow> bool \<Rightarrow> state \<Rightarrow> (exn + load_result \<times> bool) \<times> state" where
  "fetch_track env c qry forced lazy st =
     (let cache_enabled = is_subset set_lavalink (cache_level env);
          raw_query = process_input env (FromQuery qry);
          q = q_str raw_query;
          (val, st1) = (if cache_enabled \<and> \<not> forced \<and> \<not> is_local raw_query
                        then fetch_track_cache env c q st else (PNone, st))
      in if lazy then fetch_track_finish env c cache_enabled raw_query None False st1
         else if truthy val \<and> \<not> forced then
           (let results = LoadResult env (cached_data val q)
            in if has_error results then
                 (case fetch_track env c raw_query True False st1 of
                    (Inl e, st2) \<Rightarrow> (Inl e, st2)
                  | (Inr (results2, called_api), st2) \<Rightarrow>
                      fetch_track_finish env c cache_enabled raw_query (Some results2) called_api st2)
               else fetch_track_finish env c cache_enabled raw_query (Some results) False st1)
         else
           (let st2 = emit (LoadTracks q) st1
            in case load_tracks env q of
                 Inl e \<Rightarrow>
                   if e = KeyError then
                     fetch_track_finish env c cache_enabled raw_query None True st2
                   else if e = RuntimeError then (Inl TrackEnqueueError, st2)
                   else (Inl e, st2)
               | Inr r \<Rightarrow> fetch_track_finish env c cache_enabled raw_query r True st2))"
  by pat_completeness auto
termination
  by (relation "measure (\<lambda>(env, c, qry, forced, lazy, st). if forced then 0 else 1)") auto

declare fetch_track.simps [simp del]

section \<open>Spotify resolution\<close>

text \<open>The row staged for the Spotify table from the tuple \<^verbatim>\<open>get_spotify_track_info\<close> returns.\<close>

definition database_entry ::
  "env \<Rightarrow> pyval \<times> pyval \<times> pyval \<times> pyval \<times> pyval \<times> pyval \<times> pyval \<Rightarrow> pyval" where
  "database_entry env info =
     (case info of (song_url, track_info, track_uri, artist_name, track_name, track_id, track_type) \<Rightarrow>
        PDict [(''id'', track_id), (''type'', track_type), (''uri'', track_uri),
               (''track_name'', track_name), (''artist_name'', artist_name),
               (''song_url'', song_url), (''track_info'', track_info),
               (''last_updated'', PInt (time_now env)), (''last_fetched'', PInt (time_now env))])"

text \<open>\<^verbatim>\<open>track.get("error", {}).get("message") == "invalid id"\<close>.\<close>

fun invalid_id :: "pyval \<Rightarrow> exn + bool" where
  "invalid_id (PDict kvs) =
     (case map_of kvs ''error'' of
        None \<Rightarrow> Inr False
      | Some (PDict err) \<Rightarrow> Inr (map_of err ''message'' = Some (PStr ''invalid id''))
      | Some v \<Rightarrow> Inl AttributeError)"
| "invalid_id v = Inl AttributeError"

text \<open>
  The per-track YouTube lookup shared by \<^verbatim>\<open>_spotify_first_time_query\<close> and
  \<^verbatim>\<open>spotify_enqueue\<close>: the cache read when the YouTube scope is enabled, the API call when
  there is no value, and the staged timestamp update.
\<close>

definition youtube_lookup :: "env \<Rightarrow> ctx \<Rightarrow> pyval \<Rightarrow> CacheLevel \<Rightarrow> state \<Rightarrow> pyval \<times> state" where
  "youtube_lookup env c track_info current_cache_level st =
     (let youtube_cache = is_subset set_youtube current_cache_level;
          (val0, st1) = (if youtube_cache then cache_read (youtube_fetch_one env track_info) st
                         else (PNone, st));
          (val, st2) = (if val0 = PNone
                        then youtube_first_time_query env c track_info current_cache_level st1
                        else (val0, st1))
      in (val,
          if youtube_cache \<and> truthy val
          then append_task c Update (task ''youtube'' (PDict [(''track'', track_info)])) None st2
          else st2))"

text \<open>
  The loop of \<^verbatim>\<open>_spotify_first_time_query\<close> over the listed tracks. The accumulator is
  \<^verbatim>\<open>(youtube_urls, database_entries, track_count)\<close>; \<open>notifier\<close> says whether a notifier
  was passed.
\<close>

fun first_time_loop ::
  "env \<Rightarrow> ctx \<Rightarrow> bool \<Rightarrow> bool \<Rightarrow> CacheLevel \<Rightarrow> nat \<Rightarrow> pyval list
     \<Rightarrow> pyval list \<times> pyval list \<times> nat \<Rightarrow> state
     \<Rightarrow> exn option \<times> (pyval list \<times> pyval list \<times> nat) \<times> state" where
  "first_time_loop env c notifier skip_youtube lvl total_tracks [] acc st = (None, acc, st)"
| "first_time_loop env c notifier skip_youtube lvl total_tracks (track # rest)
     (youtube_urls, entries, track_count) st =
     (case invalid_id track of
        Inl e \<Rightarrow> (Some e, (youtube_urls, entries, track_count), st)
      | Inr True \<Rightarrow>
          first_time_loop env c notifier skip_youtube lvl total_tracks rest
            (youtube_urls, entries, track_count) st
      | Inr False \<Rightarrow>
          (let info = get_spotify_track_info env track;
               track_info = fst (snd info);
               entries1 = entries @ [database_entry env info];
               (urls1, st1) =
                 (if \<not> skip_youtube then
                    (let (val, st') = youtube_lookup env c track_info lvl st
                     in (if truthy val then youtube_urls @ [val] else youtube_urls, st'))
                  else (youtube_urls @ [track_info], st));
               track_count1 = track_count + 1;
               st2 = (if notifier \<and> (track_count1 mod 2 = 0 \<or> track_count1 = total_tracks)
                      then emit (NotifyUser track_count1 total_tracks ''youtube'') st1
                      else st1)
           in first_time_loop env c notifier skip_youtube lvl total_tracks rest
                (urls1, entries1, track_count1) st2))"

definition spotify_first_time_query ::
  "env \<Rightarrow> ctx \<Rightarrow> string \<Rightarrow> string \<Rightarrow> bool \<Rightarrow> bool \<Rightarrow> CacheLevel \<Rightarrow> state
     \<Rightarrow> (exn + pyval list) \<times> state" where
  "spotify_first_time_query env c query_type uri_arg notifier skip_youtube current_cache_level st =
     (let st1 = emit (SpotifyFetchTracks query_type uri_arg) st
      in case spotify_fetch_tracks env query_type uri_arg of
           Inl e \<Rightarrow> (Inl e, st1)
         | Inr listed \<Rightarrow>
             (case first_time_loop env c notifier skip_youtube current_cache_level
                     (length listed) listed ([], [], 0) st1 of
                (Some e, acc, st2) \<Rightarrow> (Inl e, st2)
              | (None, (youtube_urls, entries, track_count), st2) \<Rightarrow>
                  (Inr youtube_urls,
                   if is_subset set_spotify current_cache_level
                   then append_task c Insert (task ''spotify'' (PList entries)) None st2
                   else st2)))"

definition spotify_query ::
  "env \<Rightarrow> ctx \<Rightarrow> string \<Rightarrow> string \<Rightarrow> bool \<Rightarrow> bool \<Rightarrow> state \<Rightarrow> (exn + pyval list) \<times> state" where
  "spotify_query env c query_type uri_arg skip_youtube notifier st =
     (let current_cache_level = cache_level env;
          cache_enabled = is_subset set_spotify current_cache_level;
          (val, st1) = (if query_type = ''track'' \<and> cache_enabled
                        then cache_read (spotify_fetch_one env (''spotify:track:'' @ uri_arg)) st
                        else (PNone, st))
      in if val = PNone then
           spotify_first_time_query env c query_type uri_arg notifier skip_youtube
             current_cache_level st1
         else
           (Inr [val],
            if query_type = ''track'' \<and> cache_enabled
            then append_task c Update
                   (task ''spotify'' (PDict [(''uri'', PStr (''spotify:track:'' @ uri_arg))])) None st1
            else st1))"

section \<open>Resolving and enqueueing a Spotify batch\<close>

text \<open>
  A call on the notifier (\<^verbatim>\<open>notify_user\<close>, \<^verbatim>\<open>update_embed\<close>): with no notifier
  (\<^verbatim>\<open>notifier=None\<close>) the attribute access raises.
\<close>

definition notify :: "bool \<Rightarrow> effect \<Rightarrow> state \<Rightarrow> exn option \<times> state" where
  "notify notifier e st = (if notifier then (None, emit e st) else (Some AttributeError, st))"

text \<open>The local variables of \<^verbatim>\<open>spotify_enqueue\<close> that its loop changes, and the player.\<close>

record enqueue_state =
  consecutive_fails :: nat
  track_list :: "track list"
  has_not_allowed :: bool
  enqueued_tracks :: nat
  database_entries :: "pyval list"
  player :: player

text \<open>
  How the fetch of one track's playable objects ends: with \<^verbatim>\<open>track_object\<close>, with a
  \<^verbatim>\<open>break\<close> out of the loop, or with an exception that leaves the loop.
\<close>

datatype fetched = Objects "track list" | Break | Raised exn

text \<open>
  \<^verbatim>\<open>lock(ctx, False)\<close>, the notice and the \<^verbatim>\<open>break\<close> of the two handlers around
  \<^verbatim>\<open>fetch_track\<close>.
\<close>

definition abort_batch :: "bool \<Rightarrow> string \<Rightarrow> state \<Rightarrow> fetched \<times> state" where
  "abort_batch notifier msg st =
     (case notify notifier (UpdateEmbed msg) (emit Lock st) of
        (Some e, st1) \<Rightarrow> (Raised e, st1)
      | (None, st1) \<Rightarrow> (Break, st1))"

text \<open>
  The first half of the loop body of \<^verbatim>\<open>spotify_enqueue\<close>: the YouTube lookup and, for a
  truthy URL, \<^verbatim>\<open>fetch_track\<close> with its two exception handlers.
\<close>

definition enqueue_fetch :: "env \<Rightarrow> ctx \<Rightarrow> bool \<Rightarrow> pyval \<Rightarrow> state \<Rightarrow> fetched \<times> state" where
  "enqueue_fetch env c notifier track_info st =
     (let (val, st1) = youtube_lookup env c track_info (cache_level env) st
      in if truthy val then
           (case fetch_track env c (process_input env (FromValue val)) False False st1 of
              (Inl e, st2) \<Rightarrow>
                if e = RuntimeError \<or> e = ServerDisconnectedError then
                  abort_batch notifier ''The connection was reset while loading the playlist.'' st2
                else if e = TimeoutError then
                  abort_batch notifier ''Player timeout, skipping remaining tracks.'' st2
                else (Raised e, st2)
            | (Inr (result, called_api), st2) \<Rightarrow> (Objects (tracks result), st2))
         else (Objects [], st1))"

text \<open>\<^verbatim>\<open>player.add\<close> with the enqueue event, counted in \<^verbatim>\<open>enqueued_tracks\<close>.\<close>

definition add_track :: "track \<Rightarrow> enqueue_state \<Rightarrow> state \<Rightarrow> enqueue_state \<times> state" where
  "add_track t es st =
     (es\<lparr>enqueued_tracks := enqueued_tracks es + 1,
         player := (player es)\<lparr>queue := queue (player es) @ [t]\<rparr>\<rparr>,
      emit (Dispatch ''red_audio_track_enqueue'' t) (emit (PlayerAdd t) st))"

text \<open>
  The second half of the loop body, for the first track of a non-empty
  \<^verbatim>\<open>track_object\<close>: the allowed-content filter, then the enqueue policy.
\<close>

definition filter_text :: "env \<Rightarrow> track \<Rightarrow> string" where
  "filter_text env t =
     title t @ '' '' @ author t @ '' '' @ uri t @ '' '' @ q_str (process_input env (FromTrack t))"

definition enqueue_track ::
  "env \<Rightarrow> bool \<Rightarrow> track \<Rightarrow> enqueue_state \<Rightarrow> state \<Rightarrow> enqueue_state \<times> state" where
  "enqueue_track env enqueue single_track es st =
     (let st1 = emit (IsAllowed (filter_text env single_track)) st
      in if \<not> is_allowed env (filter_text env single_track) then (es\<lparr>has_not_allowed := True\<rparr>, st1)
         else
           (let es1 = es\<lparr>track_list := track_list es @ [single_track]\<rparr>
            in if enqueue then
                 (if length (queue (player es1)) \<ge> 10000 then (es1, st1)
                  else
                    (let (es2, st2) =
                           (if maxlength env > 0 then
                              (if track_limit env single_track (maxlength env)
                               then add_track single_track es1 st1 else (es1, st1))
                            else add_track single_track es1 st1)
                     in if current (player es2) = None
                        then (es2\<lparr>player := player_play env (player es2)\<rparr>, emit PlayerPlay st2)
                        else (es2, st2)))
               else (es1, st1)))"

text \<open>
  The loop \<^verbatim>\<open>for track_count, track in enumerate(tracks_from_spotify)\<close>. The result is the
  exception that leaves the loop, if any, with the local variables and the state.
\<close>

fun enqueue_loop ::
  "env \<Rightarrow> ctx \<Rightarrow> bool \<Rightarrow> bool \<Rightarrow> nat \<Rightarrow> nat \<Rightarrow> pyval list \<Rightarrow> enqueue_state \<Rightarrow> state
     \<Rightarrow> exn option \<times> enqueue_state \<times> state" where
  "enqueue_loop env c enqueue notifier total_tracks track_count [] es st = (None, es, st)"
| "enqueue_loop env c enqueue notifier total_tracks track_count (track # rest) es st =
     (let info = get_spotify_track_info env track;
          es1 = es\<lparr>database_entries := database_entries es @ [database_entry env info]\<rparr>
      in case enqueue_fetch env c notifier (fst (snd info)) st of
           (Raised e, st1) \<Rightarrow> (Some e, es1, st1)
         | (Break, st1) \<Rightarrow> (None, es1, st1)
         | (Objects track_object, st1) \<Rightarrow>
             (case (if track_count mod 2 = 0 \<or> track_count = total_tracks
                    then notify notifier (NotifyUser track_count total_tracks ''lavalink'') st1
                    else (None, st1)) of
                (Some e, st2) \<Rightarrow> (Some e, es1, st2)
              | (None, st2) \<Rightarrow>
                  if consecutive_fails es1 \<ge> 10 then
                    (case notify notifier
                            (UpdateEmbed ''Failing to get tracks, skipping remaining.'') st2 of
                       (Some e, st3) \<Rightarrow> (Some e, es1, st3)
                     | (None, st3) \<Rightarrow> (None, es1, st3))
                  else
                    (case track_object of
                       [] \<Rightarrow>
                         enqueue_loop env c enqueue notifier total_tracks (Suc track_count) rest
                           (es1\<lparr>consecutive_fails := consecutive_fails es1 + 1\<rparr>) st2
                     | single_track # others \<Rightarrow>
                         (let (es2, st3) =
                                enqueue_track env enqueue single_track
                                  (es1\<lparr>consecutive_fails := 0\<rparr>) st2
                          in enqueue_loop env c enqueue notifier total_tracks (Suc track_count)
                               rest es2 st3))))"

definition nothing_found :: exn where
  "nothing_found = SpotifyFetchError ''Nothing found.''"

text \<open>
  The \<^verbatim>\<open>try\<close> block of \<^verbatim>\<open>spotify_enqueue\<close>: the listing, the guard on an empty listing,
  the loop, the error on an empty result that the filter did not cause, the summary and
  the staged Spotify rows. The result is \<^verbatim>\<open>track_list\<close> or the exception, with the
  player and the state.
\<close>

definition spotify_enqueue_try ::
  "env \<Rightarrow> ctx \<Rightarrow> string \<Rightarrow> string \<Rightarrow> bool \<Rightarrow> player \<Rightarrow> bool \<Rightarrow> state
     \<Rightarrow> (exn + track list) \<times> player \<times> state" where
  "spotify_enqueue_try env c query_type uri_arg enqueue pl notifier st =
     (let st1 = emit (SpotifyFetchTracks query_type uri_arg) st
      in case spotify_fetch_tracks env query_type uri_arg of
           Inl e \<Rightarrow> (Inl e, pl, st1)
         | Inr tracks_from_spotify \<Rightarrow>
             if length tracks_from_spotify < 1 then
               (case notify notifier
                       (UpdateEmbed ''This doesn't seem to be a supported Spotify URL or code.'')
                       (emit Lock st1) of
                  (Some e, st2) \<Rightarrow> (Inl e, pl, st2)
                | (None, st2) \<Rightarrow> (Inr [], pl, st2))
             else
               (case enqueue_loop env c enqueue notifier (length tracks_from_spotify) 0
                       tracks_from_spotify
                       \<lparr>consecutive_fails = 0, track_list = [], has_not_allowed = False,
                        enqueued_tracks = 0, database_entries = [], player = pl\<rparr> st1 of
                  (Some e, es, st2) \<Rightarrow> (Inl e, player es, st2)
                | (None, es, st2) \<Rightarrow>
                    if track_list es = [] \<and> \<not> has_not_allowed es then
                      (Inl nothing_found, player es, st2)
                    else
                      (case (if enqueue \<and> tracks_from_spotify \<noteq> []
                             then notify notifier (UpdateEmbed ''Playlist Enqueued'')
                                    (emit MaybeShuffle st2)
                             else (None, emit MaybeShuffle st2)) of
                         (Some e, st3) \<Rightarrow> (Inl e, player es, st3)
                       | (None, st3) \<Rightarrow>
                           (Inr (track_list es), player es,
                            if is_subset set_spotify (cache_level env)
                            then append_task c Insert
                                   (task ''spotify'' (PList (database_entries es))) None
                                   (emit Lock st3)
                            else emit Lock st3))))"

text \<open>
  \<^verbatim>\<open>spotify_enqueue\<close>: an exception of the block passes
  \<^verbatim>\<open>except Exception as exc: lock(ctx, False); raise exc\<close>, and \<^verbatim>\<open>finally\<close> releases the lock
  once more.
\<close>

definition spotify_enqueue ::
  "env \<Rightarrow> ctx \<Rightarrow> string \<Rightarrow> string \<Rightarrow> bool \<Rightarrow> player \<Rightarrow> bool \<Rightarrow> state
     \<Rightarrow> (exn + track list) \<times> player \<times> state" where
  "spotify_enqueue env c query_type uri_arg enqueue pl notifier st =
     (case spotify_enqueue_try env c query_type uri_arg enqueue pl notifier st of
        (Inl e, pl1, st1) \<Rightarrow> (Inl e, pl1, emit Lock (emit Lock st1))
      | (Inr found, pl1, st1) \<Rightarrow> (Inr found, pl1, emit Lock st1))"

section \<open>Autoplay\<close>

text \<open>
  The retry loop of \<^verbatim>\<open>autoplay\<close>. \<open>choice n\<close> is what the \<open>n\<close>-th call of
  \<^verbatim>\<open>random.choice(tracks)\<close> returns; the result carries the number of draws made.
\<close>

function autoplay_loop ::
  "env \<Rightarrow> (nat \<Rightarrow> track) \<Rightarrow> nat \<Rightarrow> int \<Rightarrow> state \<Rightarrow> (exn + track) \<times> nat \<times> state" where
  "autoplay_loop env choice n tries st =
     (if tries - 1 \<le> 0 then (Inl (DatabaseError ''No valid entry found''), n, st)
      else
        (let t = choice n;
             qry = process_input env (FromTrack t)
         in if \<not> valid qry then autoplay_loop env choice (Suc n) (tries - 1) st
            else if is_local qry \<and> \<not> local_track_exists qry then
              autoplay_loop env choice (Suc n) (tries - 1) st
            else if \<not> is_allowed env (filter_text env t) then
              autoplay_loop env choice (Suc n) (tries - 1) (emit (IsAllowed (filter_text env t)) st)
            else (Inr t, Suc n, emit (IsAllowed (filter_text env t)) st)))"
  by pat_completeness auto
termination
  by (relation "measure (\<lambda>(env, choice, n, tries, st). nat tries)") auto

declare autoplay_loop.simps [simp del]

text \<open>
  \<^verbatim>\<open>autoplay\<close> from the candidate list \<^verbatim>\<open>tracks\<close> on (\<^verbatim>\<open>if tracks:\<close>): with more than one
  candidate the retry loop chooses, a single candidate is taken as it is; the chosen
  track is added to the player and the autoplay event is dispatched.
\<close>

definition autoplay ::
  "env \<Rightarrow> (nat \<Rightarrow> track) \<Rightarrow> track list \<Rightarrow> state \<Rightarrow> (exn + track option) \<times> nat \<times> state" where
  "autoplay env choice candidates st =
     (case candidates of
        [] \<Rightarrow> (Inr None, 0, st)
      | first # others \<Rightarrow>
          (case (if length candidates > 1
                 then autoplay_loop env choice 0 (int (length candidates)) st
                 else (Inr first, 0, st)) of
             (Inl e, n, st1) \<Rightarrow> (Inl e, n, st1)
           | (Inr t, n, st1) \<Rightarrow>
               (Inr (Some t), n,
                emit (Dispatch ''red_audio_track_auto_play'' t) (emit (PlayerAdd t) st1))))"

section \<open>Concrete inputs\<close>

text \<open>The staged lists of a request id, if it has a pending set.\<close>

definition staged :: "state \<Rightarrow> nat \<Rightarrow> (pyval list \<times> pyval list \<times> pyval list) option" where
  "staged st k = map_option (\<lambda>p. (p Update, p Insert, p Global)) (map_of (tasks st) k)"

definition c1 :: ctx where
  "c1 = \<lparr>ctx_message_id = 1\<rparr>"

definition st0 :: state where
  "st0 = \<lparr>tasks = [], effects = []\<rparr>"

definition yt_task :: pyval where
  "yt_task = task ''youtube'' (PList [PDict [(''track_info'', PStr ''a'')]])"

text \<open>
  An update of the YouTube table and an insert into the Lavalink table, as the pipeline
  stages them, and a storage backend whose every update raises.
\<close>

definition upd_task :: pyval where
  "upd_task = task ''youtube'' (PDict [(''track'', PStr ''a'')])"

definition ins_task :: pyval where
  "ins_task = task ''lavalink'' (PList [PDict [(''query'', PStr ''u'')]])"

definition db_update_fails :: storage where
  "db_update_fails = (\<lambda>table action data. if action = Update then Some StorageError else None)"

text \<open>Request id 1 with the update and the insert staged, and with four updates staged.\<close>

definition st_pending :: state where
  "st_pending = append_task c1 Insert ins_task None (append_task c1 Update upd_task None st0)"

definition st_four :: state where
  "st_four = append_task c1 Update upd_task None (append_task c1 Update upd_task None
               (append_task c1 Update upd_task None (append_task c1 Update upd_task None st0)))"

text \<open>The same update and insert as well-formed calls of \<^verbatim>\<open>route_tasks\<close>.\<close>

definition two_calls :: "(pyval \<times> pyval \<times> pyval) list" where
  "two_calls = [(PStr ''update'', PStr ''youtube'', PDict [(''track'', PStr ''a'')]),
                (PStr ''insert'', PStr ''lavalink'', PList [PDict [(''query'', PStr ''u'')]])]"

text \<open>What the effect log says of the provider: the queries of the \<^verbatim>\<open>load_tracks\<close> calls.\<close>

definition provider_calls :: "state \<Rightarrow> string list" where
  "provider_calls st = concat (map (\<lambda>e. case e of LoadTracks q \<Rightarrow> [q] | _ \<Rightarrow> []) (effects st))"

text \<open>The inserts staged for a request id.\<close>

definition inserts :: "state \<Rightarrow> nat \<Rightarrow> pyval list" where
  "inserts st k = (case map_of (tasks st) k of None \<Rightarrow> [] | Some p \<Rightarrow> p Insert)"

text \<open>
  \<^verbatim>\<open>fetch_track\<close> has no cached value to use: the call is forced, the Lavalink scope is
  disabled, the query is local, the cache read raises, or it returns something that is
  not a truthy dictionary.
\<close>

definition no_cached_value :: "env \<Rightarrow> query \<Rightarrow> bool \<Rightarrow> bool" where
  "no_cached_value env qry forced =
     (let raw_query = process_input env (FromQuery qry)
      in forced \<or> \<not> is_subset set_lavalink (cache_level env) \<or> is_local raw_query \<or>
         (case lavalink_fetch_one env (q_str raw_query) of
            Inl e \<Rightarrow> True
          | Inr (v, u) \<Rightarrow> \<not> (truthy v \<and> is_dict v)))"

text \<open>
  The condition under which the end of \<^verbatim>\<open>fetch_track\<close> stages a result, the scope being
  enabled and the query not local: a truthy load type, no error, at least one track, and a
  serialisation in which each of the four key names occurs.
\<close>

definition cacheable :: "env \<Rightarrow> load_result \<Rightarrow> bool" where
  "cacheable env results =
     (truthy (load_type results) \<and> \<not> has_error results \<and> tracks results \<noteq> [] \<and>
      (case json_dumps env (raw results) of
         Inl e \<Rightarrow> False
       | Inr data \<Rightarrow> list_all (\<lambda>k. contains k data) shape_keys))"

text \<open>The claim's reading of the shape check: the keys are top-level keys of the response.\<close>

fun has_top_level_keys :: "pyval \<Rightarrow> string list \<Rightarrow> bool" where
  "has_top_level_keys (PDict kvs) ks = list_all (\<lambda>k. map_of kvs k \<noteq> None) ks"
| "has_top_level_keys v ks = False"

text \<open>
  \<^verbatim>\<open>json.dumps\<close> with its default separators, on values whose strings are printable ASCII:
  only the double quote and the backslash are escaped.
\<close>

fun show_nat :: "nat \<Rightarrow> string" where
  "show_nat n = (if n < 10 then [''0123456789'' ! n]
                 else show_nat (n div 10) @ [''0123456789'' ! (n mod 10)])"

definition show_int :: "int \<Rightarrow> string" where
  "show_int i = (if i < 0 then ''-'' @ show_nat (nat (- i)) else show_nat (nat i))"

definition quote :: "string \<Rightarrow> string" where
  "quote s = [CHR 0x22] @ concat (map (\<lambda>ch. if ch = CHR 0x22 \<or> ch = CHR 0x5C then [CHR 0x5C, ch] else [ch]) s)
               @ [CHR 0x22]"

fun join :: "string list \<Rightarrow> string" where
  "join [] = []"
| "join [x] = x"
| "join (x # y # ys) = x @ '', '' @ join (y # ys)"

fun py_json_dumps :: "pyval \<Rightarrow> string" where
  "py_json_dumps PNone = ''null''"
| "py_json_dumps (PBool b) = (if b then ''true'' else ''false'')"
| "py_json_dumps (PInt i) = show_int i"
| "py_json_dumps (PStr s) = quote s"
| "py_json_dumps (PList xs) = ''['' @ join (map py_json_dumps xs) @ '']''"
| "py_json_dumps (PTuple xs) = ''['' @ join (map py_json_dumps xs) @ '']''"
| "py_json_dumps (PDict kvs) =
     ''{'' @ join (map (\<lambda>kv. quote (fst kv) @ '': '' @ py_json_dumps (snd kv)) kvs) @ ''}''"

text \<open>A small \<^verbatim>\<open>LoadResult\<close> constructor and query normaliser for the concrete inputs.\<close>

fun demo_str :: "pyval option \<Rightarrow> string" where
  "demo_str (Some (PStr s)) = s"
| "demo_str v = []"

fun demo_track :: "pyval \<Rightarrow> track" where
  "demo_track (PDict kvs) =
     (case map_of kvs ''info'' of
        Some (PDict info) \<Rightarrow>
          Track (demo_str (map_of info ''title'')) (demo_str (map_of info ''author''))
            (demo_str (map_of info ''uri''))
      | _ \<Rightarrow> Track [] [] [])"
| "demo_track v = Track [] [] []"

fun demo_LoadResult :: "pyval \<Rightarrow> load_result" where
  "demo_LoadResult (PDict kvs) =
     \<lparr>load_type = (case map_of kvs ''loadType'' of Some t \<Rightarrow> t | None \<Rightarrow> PStr ''LOAD_FAILED''),
      has_error = (case map_of kvs ''loadType'' of Some t \<Rightarrow> t = PStr ''LOAD_FAILED'' | None \<Rightarrow> True),
      tracks = (case map_of kvs ''tracks'' of Some (PList ts) \<Rightarrow> map demo_track ts | _ \<Rightarrow> []),
      raw = PDict kvs\<rparr>"
| "demo_LoadResult v =
     \<lparr>load_type = PStr ''LOAD_FAILED'', has_error = True, tracks = [], raw = v\<rparr>"

fun demo_process_input :: "qinput \<Rightarrow> query" where
  "demo_process_input (FromValue (PStr s)) =
     \<lparr>q_str = s, is_local = False, valid = True, local_track_exists = False\<rparr>"
| "demo_process_input (FromValue v) =
     \<lparr>q_str = [], is_local = False, valid = False, local_track_exists = False\<rparr>"
| "demo_process_input (FromQuery q) = q"
| "demo_process_input (FromTrack t) =
     \<lparr>q_str = uri t, is_local = False, valid = True, local_track_exists = False\<rparr>"

text \<open>
  A provider response with one track. Its top-level keys are \<^verbatim>\<open>loadType\<close>,
  \<^verbatim>\<open>playlistInfo\<close> and \<^verbatim>\<open>tracks\<close>; \<^verbatim>\<open>isSeekable\<close> and \<^verbatim>\<open>isStream\<close> are keys of the
  track's \<^verbatim>\<open>info\<close>.
\<close>

definition good_raw :: pyval where
  "good_raw =
     PDict [(''loadType'', PStr ''TRACK_LOADED''), (''playlistInfo'', PDict []),
            (''tracks'', PList [PDict [(''track'', PStr ''QAAA''),
               (''info'', PDict [(''title'', PStr ''t''), (''author'', PStr ''a''),
                                 (''uri'', PStr ''u''), (''isSeekable'', PBool True),
                                 (''isStream'', PBool False)])]])]"

definition q0 :: query where
  "q0 = \<lparr>q_str = ''u'', is_local = False, valid = True, local_track_exists = False\<rparr>"

text \<open>
  The base environment: every scope enabled, empty caches, a YouTube client and a provider
  that find nothing, a filter that allows everything.
\<close>

definition env0 :: env where
  "env0 =
     \<lparr>cache_level = [SpotifyScope, YouTubeScope, LavalinkScope],
      spotify_fetch_one = (\<lambda>k. Inr (PNone, PNone)),
      youtube_fetch_one = (\<lambda>k. Inr (PNone, PNone)),
      lavalink_fetch_one = (\<lambda>k. Inr (PNone, PNone)),
      spotify_fetch_tracks = (\<lambda>query_type u. Inr []),
      get_spotify_track_info = (\<lambda>t. (PNone, t, PNone, PNone, PNone, PNone, PNone)),
      youtube_get_call = (\<lambda>info. PNone),
      load_tracks = (\<lambda>q. Inr None),
      LoadResult = demo_LoadResult,
      process_input = demo_process_input,
      json_dumps = (\<lambda>v. Inr (py_json_dumps v)),
      is_allowed = (\<lambda>s. True),
      track_limit = (\<lambda>t m. True),
      maxlength = 0,
      player_play = (\<lambda>p. p),
      time_now = 0\<rparr>"

text \<open>A local cache whose every read raises, before a provider that finds the track.\<close>

definition env_fault :: env where
  "env_fault =
     env0\<lparr>spotify_fetch_one := (\<lambda>k. Inl StorageError),
          youtube_fetch_one := (\<lambda>k. Inl StorageError),
          lavalink_fetch_one := (\<lambda>k. Inl StorageError),
          youtube_get_call := (\<lambda>info. PStr ''u''),
          load_tracks := (\<lambda>q. Inr (Some (demo_LoadResult good_raw)))\<rparr>"

text \<open>A cached entry that reports a load error, before a provider that finds the track.\<close>

definition env_stale :: env where
  "env_stale =
     env0\<lparr>lavalink_fetch_one := (\<lambda>k. Inr (PDict [(''loadType'', PStr ''LOAD_FAILED'')], PBool False)),
          load_tracks := (\<lambda>q. Inr (Some (demo_LoadResult good_raw)))\<rparr>"

text \<open>An empty cache before a provider that finds the track.\<close>

definition env_found :: env where
  "env_found = env0\<lparr>load_tracks := (\<lambda>q. Inr (Some (demo_LoadResult good_raw)))\<rparr>"

text \<open>The same environment with a Lavalink table that holds nothing.\<close>

definition lavalink_miss :: "env \<Rightarrow> env" where
  "lavalink_miss env = env\<lparr>lavalink_fetch_one := (\<lambda>k. Inr (PNone, PNone))\<rparr>"

text \<open>
  A candidate the retry loop of \<^verbatim>\<open>autoplay\<close> accepts: its query is valid, it is not a
  local track whose file is missing, and the content filter allows it.
\<close>

definition acceptable :: "env \<Rightarrow> track \<Rightarrow> bool" where
  "acceptable env t =
     (let qry = process_input env (FromTrack t)
      in valid qry \<and> \<not> (is_local qry \<and> \<not> local_track_exists qry)
         \<and> is_allowed env (filter_text env t))"

text \<open>
  A pool of five local tracks; the normaliser below finds the file of the one called
  \<^verbatim>\<open>ok\<close> only.
\<close>

definition pool5 :: "track list" where
  "pool5 = [Track ''a'' ''x'' ''a'', Track ''b'' ''x'' ''b'', Track ''c'' ''x'' ''c'',
            Track ''d'' ''x'' ''d'', Track ''ok'' ''x'' ''ok'']"

fun local_process_input :: "qinput \<Rightarrow> query" where
  "local_process_input (FromTrack t) =
     \<lparr>q_str = uri t, is_local = True, valid = True, local_track_exists = (uri t = ''ok'')\<rparr>"
| "local_process_input (FromQuery q) = q"
| "local_process_input (FromValue v) =
     \<lparr>q_str = [], is_local = False, valid = False, local_track_exists = False\<rparr>"

definition env_local :: env where
  "env_local = env0\<lparr>process_input := local_process_input\<rparr>"

text \<open>Draws that return the first candidate every time, and draws that return the last one
  at the fourth call.\<close>

definition always_first :: "nat \<Rightarrow> track" where
  "always_first n = Track ''a'' ''x'' ''a''"

definition fourth_ok :: "nat \<Rightarrow> track" where
  "fourth_ok n = (if n = 3 then Track ''ok'' ''x'' ''ok'' else Track ''a'' ''x'' ''a'')"

text \<open>
  Draws that would return the last candidate at the fifth call; a pool of two tracks, and
  draws that would return its second track at the second call.
\<close>

definition fifth_ok :: "nat \<Rightarrow> track" where
  "fifth_ok n = (if n = 4 then Track ''ok'' ''x'' ''ok'' else Track ''a'' ''x'' ''a'')"

definition pool2 :: "track list" where
  "pool2 = [Track ''a'' ''x'' ''a'', Track ''ok'' ''x'' ''ok'']"

definition second_ok :: "nat \<Rightarrow> track" where
  "second_ok n = (if n = 1 then Track ''ok'' ''x'' ''ok'' else Track ''a'' ''x'' ''a'')"

text \<open>What the effect log says of the notifier: the \<^verbatim>\<open>notify_user\<close> calls, in order.\<close>

definition notifications :: "state \<Rightarrow> (nat \<times> nat \<times> string) list" where
  "notifications st =
     concat (map (\<lambda>e. case e of NotifyUser cur tot k \<Rightarrow> [(cur, tot, k)] | _ \<Rightarrow> []) (effects st))"

text \<open>
  A YouTube client and a provider that find every track, behind empty caches; a Spotify
  listing of two tracks; an idle player with an empty queue.
\<close>

definition env_play :: env where
  "env_play = env_found\<lparr>youtube_get_call := (\<lambda>info. PStr ''u'')\<rparr>"

definition two_tracks :: "pyval list" where
  "two_tracks = [PDict [(''name'', PStr ''a'')], PDict [(''name'', PStr ''b'')]]"

definition env_two :: env where
  "env_two = env_play\<lparr>spotify_fetch_tracks := (\<lambda>query_type u. Inr two_tracks)\<rparr>"

definition pl0 :: player where
  "pl0 = \<lparr>queue = [], current = None\<rparr>"

text \<open>
  The effects of the lookups and fetches: exceptions logged, calls of the YouTube API and
  of the provider, the lock and notices. None of them is a progress notification, a call
  of the content filter or a player call.
\<close>

fun background :: "effect \<Rightarrow> bool" where
  "background (DebugExcLog e) = True"
| "background (YouTubeGetCall i) = True"
| "background (LoadTracks q) = True"
| "background Lock = True"
| "background (UpdateEmbed m) = True"
| "background e = False"

text \<open>From \<open>st\<close> to \<open>st'\<close> the effect log grew by effects that satisfy \<open>P\<close>.\<close>

definition grows_by :: "(effect \<Rightarrow> bool) \<Rightarrow> state \<Rightarrow> state \<Rightarrow> bool" where
  "grows_by P st st' = (\<exists>new. effects st' = effects st @ new \<and> list_all P new)"

text \<open>The content filter was called on a text it rejects.\<close>

definition rejected :: "env \<Rightarrow> state \<Rightarrow> bool" where
  "rejected env st =
     list_ex (\<lambda>e. case e of IsAllowed s \<Rightarrow> \<not> is_allowed env s | _ \<Rightarrow> False) (effects st)"

text \<open>The notice of the backoff policy.\<close>

definition abort_notice :: effect where
  "abort_notice = UpdateEmbed ''Failing to get tracks, skipping remaining.''"

text \<open>The local variables of \<^verbatim>\<open>spotify_enqueue\<close> when its loop starts.\<close>

definition es0 :: "player \<Rightarrow> enqueue_state" where
  "es0 pl = \<lparr>consecutive_fails = 0, track_list = [], has_not_allowed = False,
             enqueued_tracks = 0, database_entries = [], player = pl\<rparr>"

text \<open>
  A YouTube client that finds a URL for every track before a provider that returns no
  result for it, and a Spotify listing of eleven tracks.
\<close>

definition env_empty :: env where
  "env_empty = env0\<lparr>youtube_get_call := (\<lambda>info. PStr ''u'')\<rparr>"

definition song :: pyval where
  "song = PDict [(''name'', PStr ''s'')]"

definition env_eleven :: env where
  "env_eleven = env_empty\<lparr>spotify_fetch_tracks := (\<lambda>query_type u. Inr (replicate 10 song @ [song]))\<rparr>"

text \<open>
  The two-track listing with every track found, before a content filter that rejects
  everything; and the same listing before a provider that returns no result.
\<close>

definition env_reject :: env where
  "env_reject = env_two\<lparr>is_allowed := (\<lambda>s. False)\<rparr>"

definition env_nothing :: env where
  "env_nothing = env_empty\<lparr>spotify_fetch_tracks := (\<lambda>query_type u. Inr two_tracks)\<rparr>"

text \<open>A provider that is down: every \<^verbatim>\<open>load_tracks\<close> raises a \<^verbatim>\<open>RuntimeError\<close>.\<close>

definition env_down :: env where
  "env_down = env0\<lparr>load_tracks := (\<lambda>q. Inl RuntimeError)\<rparr>"

section \<open>Properties of the deferred write queue\<close>

text \<open>
  What \<^verbatim>\<open>route_tasks\<close> and \<^verbatim>\<open>gather\<close> leave behind does not depend on which writes
  raise: a write that raises ends its own coroutine only.
\<close>

lemma route_tasks_state: "snd (route_tasks db a t d st) = snd (route_tasks db' a t d st)"
  by (simp add: route_tasks_def db_insert_def db_update_def)

lemma gather_state: "snd (gather db calls st) = snd (gather db' calls st)"
proof (induction calls arbitrary: st)
  case Nil
  show ?case by simp
next
  case (Cons call calls)
  obtain a t d where call: "call = (a, t, d)" by (cases call)
  have "snd (route_tasks db a t d st) = snd (route_tasks db' a t d st)"
    by (rule route_tasks_state)
  with Cons.IH show ?case
    by (simp add: call split_beta)
qed

lemma gather_length: "length (fst (gather db calls st)) = length calls"
  by (induction calls arbitrary: st) (auto simp: split_beta)

lemma run_tasks_try_indep: "run_tasks_try db c st = run_tasks_try db' c st"
  unfolding run_tasks_try_def gather_state[of db _ _ db'] by (rule refl)

lemma run_tasks_indep: "run_tasks db c mid st = run_tasks db' c mid st"
  by (simp only: run_tasks_def run_tasks_try_indep[of db c st db'])

lemma run_all_indep: "run_all_pending_tasks db st = run_all_pending_tasks db' st"
  unfolding run_all_pending_tasks_def run_all_pending_tasks_try_def gather_state[of db _ _ db']
  by (rule refl)

lemma run_all_returns: "\<exists>st'. run_all_pending_tasks db st = Inr st'"
  unfolding run_all_pending_tasks_def by (auto split: prod.splits option.splits)

lemma run_tasks_returns:
  "c \<noteq> None \<or> mid \<noteq> None \<Longrightarrow> \<exists>st'. run_tasks db c mid st = Inr st'"
  unfolding run_tasks_def by (auto split: prod.splits option.splits)

text \<open>
  Claim C1, evaluated on the code. One insert is staged for request id 2 through the
  explicit \<^verbatim>\<open>_id\<close> argument, under a context whose message id is 1. The flush
  \<^verbatim>\<open>run_tasks(ctx, message_id=2)\<close> finds id 2 pending, then reads
  \<^verbatim>\<open>self._tasks[ctx.message.id]\<close>, which raises a \<^verbatim>\<open>KeyError\<close> that is logged: the pending
  set of id 2 is still there afterwards and nothing was written. When the id comes from
  the context (third part), the pending set is removed, but the staged insert is not
  executed either: \<^verbatim>\<open>route_tasks(*tasks[a])\<close> receives the staged tuple as its
  \<^verbatim>\<open>action_type\<close> and returns at \<^verbatim>\<open>if not data\<close>, so no storage write takes place.
\<close>

theorem run_tasks_skips_staged_writes:
  "staged (append_task c1 Insert yt_task (Some 2) st0) 2 = Some ([], [yt_task], [])
   \<and> (case run_tasks db (Some c1) (Some 2) (append_task c1 Insert yt_task (Some 2) st0) of
        Inl e \<Rightarrow> False
      | Inr st \<Rightarrow> staged st 2 = Some ([], [yt_task], []) \<and> effects st = [DebugExcLog KeyError])
   \<and> (case run_tasks db (Some c1) None (append_task c1 Insert yt_task None st0) of
        Inl e \<Rightarrow> False
      | Inr st \<Rightarrow> staged st 1 = None \<and> effects st = [])"
  by (simp add: staged_def run_tasks_def run_tasks_try_def append_task_def c1_def st0_def
      empty_pending_def route_tasks_def yt_task_def task_def emit_def)

text \<open>
  A flush does not raise because a write raised. For every two assignments \<open>db\<close> and
  \<open>db'\<close> of outcomes to the storage writes: \<^verbatim>\<open>gather\<close> runs every coroutine it is given
  (one result per call) and leaves the same state, with the same writes attempted,
  whichever of them raise; \<^verbatim>\<open>run_all_pending_tasks\<close> and \<^verbatim>\<open>run_tasks\<close> end the same way
  under both assignments; \<^verbatim>\<open>run_all_pending_tasks\<close> always returns, and \<^verbatim>\<open>run_tasks\<close>
  returns whenever it is given a context or a message id (with neither, the read of
  \<^verbatim>\<open>ctx.message.id\<close> before the lock raises, whatever is staged). The coroutines of one
  \<^verbatim>\<open>gather\<close> are run one after the other here; their interleaving is not modelled.
\<close>

lemma flush_outcome_independent:
  "snd (gather db calls st) = snd (gather db' calls st)
   \<and> length (fst (gather db calls st)) = length calls
   \<and> run_all_pending_tasks db st = run_all_pending_tasks db' st
   \<and> (\<exists>st'. run_all_pending_tasks db st = Inr st')
   \<and> run_tasks db c message_id st = run_tasks db' c message_id st
   \<and> (c \<noteq> None \<or> message_id \<noteq> None \<longrightarrow> (\<exists>st'. run_tasks db c message_id st = Inr st'))"
  using gather_state[of db calls st db'] gather_length[of db calls st]
    run_all_indep[of db st db'] run_all_returns[of db st]
    run_tasks_indep[of db c message_id st db'] run_tasks_returns[of c message_id db st]
  by blast

text \<open>
  Claim C2, evaluated on the code. For request id 1 an update of the YouTube table and an
  insert into the Lavalink table are staged, and the storage backend raises on every
  update. The claim says that the flush runs the insert although the update fails, and
  that it does not raise. \<^verbatim>\<open>run_tasks\<close> and \<^verbatim>\<open>run_all_pending_tasks\<close> do return, and
  the pending set is gone, but neither the insert nor the update was attempted:
  \<^verbatim>\<open>route_tasks(*tasks[a])\<close> receives the staged tuple (in \<^verbatim>\<open>run_all_pending_tasks\<close>
  the staged list) as its \<^verbatim>\<open>action_type\<close> and returns before it dispatches, which is the
  second defect of claim C1. With four updates staged, the call of \<^verbatim>\<open>route_tasks\<close> for
  that category raises a \<^verbatim>\<open>TypeError\<close> while the coroutines are built; it is logged and
  no category is run. Given the same update and insert as well-formed calls,
  \<^verbatim>\<open>gather\<close> attempts both: the insert runs after the update has raised.
\<close>

theorem flush_runs_no_staged_write:
  "staged st_pending 1 = Some ([upd_task], [ins_task], [])
   \<and> (case run_tasks db_update_fails (Some c1) None st_pending of
        Inl e \<Rightarrow> False
      | Inr st \<Rightarrow> staged st 1 = None \<and> effects st = [])
   \<and> (case run_all_pending_tasks db_update_fails st_pending of
        Inl e \<Rightarrow> False
      | Inr st \<Rightarrow> tasks st = [] \<and> effects st = [])
   \<and> (case run_tasks db_update_fails (Some c1) None st_four of
        Inl e \<Rightarrow> False
      | Inr st \<Rightarrow> staged st 1 = None \<and> effects st = [DebugExcLog TypeError])
   \<and> fst (gather db_update_fails two_calls st0) = [Some StorageError, None]
   \<and> effects (snd (gather db_update_fails two_calls st0)) =
       [DbUpdate ''youtube'' (PDict [(''track'', PStr ''a'')]),
        DbInsert ''lavalink'' (PList [PDict [(''query'', PStr ''u'')]])]"
proof -
  have a: "staged st_pending 1 = Some ([upd_task], [ins_task], [])"
    by (simp add: staged_def st_pending_def append_task_def c1_def st0_def empty_pending_def)
  have b: "case run_tasks db_update_fails (Some c1) None st_pending of
        Inl e \<Rightarrow> False
      | Inr st \<Rightarrow> staged st 1 = None \<and> effects st = []"
    by (simp add: staged_def run_tasks_def run_tasks_try_def st_pending_def append_task_def
        c1_def st0_def empty_pending_def route_tasks_def upd_task_def ins_task_def task_def)
  have c: "case run_all_pending_tasks db_update_fails st_pending of
        Inl e \<Rightarrow> False
      | Inr st \<Rightarrow> tasks st = [] \<and> effects st = []"
    by (simp add: run_all_pending_tasks_def run_all_pending_tasks_try_def collect_pending_def
        st_pending_def append_task_def c1_def st0_def empty_pending_def route_tasks_def)
  have d: "case run_tasks db_update_fails (Some c1) None st_four of
        Inl e \<Rightarrow> False
      | Inr st \<Rightarrow> staged st 1 = None \<and> effects st = [DebugExcLog TypeError]"
    by (simp add: staged_def run_tasks_def run_tasks_try_def st_four_def append_task_def
        c1_def st0_def empty_pending_def emit_def)
  have e: "fst (gather db_update_fails two_calls st0) = [Some StorageError, None]"
    by (simp add: two_calls_def db_update_fails_def route_tasks_def db_insert_def db_update_def)
  have f: "effects (snd (gather db_update_fails two_calls st0)) =
       [DbUpdate ''youtube'' (PDict [(''track'', PStr ''a'')]),
        DbInsert ''lavalink'' (PList [PDict [(''query'', PStr ''u'')]])]"
    by (simp add: two_calls_def st0_def route_tasks_def db_insert_def db_update_def emit_def)
  show ?thesis using a b c d e f by blast
qed

section \<open>Properties of the playable-track fetch\<close>

lemma provider_calls_emit [simp]:
  "provider_calls (emit e st) = provider_calls st @ (case e of LoadTracks q \<Rightarrow> [q] | _ \<Rightarrow> [])"
  by (simp add: provider_calls_def emit_def)

lemma effects_emit [simp]: "effects (emit e st) = effects st @ [e]"
  by (simp add: emit_def)

lemma tasks_emit [simp]: "tasks (emit e st) = tasks st"
  by (simp add: emit_def)

lemma effects_append_task [simp]: "effects (append_task c ev t i st) = effects st"
  by (simp add: append_task_def Let_def)

lemma provider_calls_append_task [simp]:
  "provider_calls (append_task c ev t i st) = provider_calls st"
  by (simp add: provider_calls_def)

lemma inserts_emit [simp]: "inserts (emit e st) k = inserts st k"
  by (simp add: inserts_def)

lemma inserts_append_update [simp]:
  "inserts (append_task c Update t None st) k = inserts st k"
  by (simp add: inserts_def append_task_def Let_def update_conv' empty_pending_def
      split: option.splits)

lemma inserts_append_insert [simp]:
  "inserts (append_task c Insert t None st) (ctx_message_id c) = inserts st (ctx_message_id c) @ [t]"
  by (simp add: inserts_def append_task_def Let_def update_conv' empty_pending_def
      split: option.splits)

lemma cache_read_value:
  "fst (cache_read r st) = (case r of Inl e \<Rightarrow> PNone | Inr (v, u) \<Rightarrow> v)"
  by (simp add: cache_read_def split: sum.splits prod.splits)

lemma cache_read_effects:
  "effects (snd (cache_read r st)) =
     effects st @ (case r of Inl e \<Rightarrow> [DebugExcLog e] | Inr p \<Rightarrow> [])"
  by (simp add: cache_read_def split: sum.splits prod.splits)

lemma cache_read_tasks [simp]: "tasks (snd (cache_read r st)) = tasks st"
  by (simp add: cache_read_def split: sum.splits prod.splits)

lemma fetch_track_cache_value:
  "fst (fetch_track_cache env c q st) =
     (case lavalink_fetch_one env q of
        Inl e \<Rightarrow> PNone
      | Inr (v, u) \<Rightarrow> if truthy v \<and> is_dict v then v else PNone)"
  by (simp add: fetch_track_cache_def cache_read_def Let_def split: sum.splits prod.splits)

lemma fetch_track_cache_effects:
  "effects (snd (fetch_track_cache env c q st)) =
     effects st @ (case lavalink_fetch_one env q of Inl e \<Rightarrow> [DebugExcLog e] | Inr p \<Rightarrow> [])"
  by (simp add: fetch_track_cache_def cache_read_def Let_def split: sum.splits prod.splits)

lemma fetch_track_cache_inserts [simp]:
  "inserts (snd (fetch_track_cache env c q st)) k = inserts st k"
  by (simp add: fetch_track_cache_def cache_read_def Let_def split: sum.splits prod.splits)

lemma finish_value:
  "fst (fetch_track_finish env c ce rq r called st) =
     Inr (case r of None \<Rightarrow> LoadResult env load_failed | Some x \<Rightarrow> x, called)"
  by (simp add: fetch_track_finish_def Let_def)

lemma finish_effects:
  "\<exists>new. effects (snd (fetch_track_finish env c ce rq r called st)) = effects st @ new
     \<and> (\<forall>e \<in> set new. \<exists>x. e = DebugExcLog x)"
  by (simp add: fetch_track_finish_def Let_def split: sum.splits)

lemma finish_inserts:
  "length (inserts st (ctx_message_id c))
     < length (inserts (snd (fetch_track_finish env c ce rq r called st)) (ctx_message_id c))
   \<longleftrightarrow> ce \<and> \<not> is_local rq
       \<and> cacheable env (case r of None \<Rightarrow> LoadResult env load_failed | Some x \<Rightarrow> x)"
  by (cases r) (auto simp add: fetch_track_finish_def cacheable_def Let_def split: sum.splits)

lemma finish_inserts_le:
  "length (inserts st (ctx_message_id c))
     \<le> length (inserts (snd (fetch_track_finish env c ce rq r called st)) (ctx_message_id c))"
  by (simp add: fetch_track_finish_def cacheable_def Let_def split: sum.splits)

text \<open>A forced call goes straight to the provider.\<close>

lemma fetch_track_forced:
  "fetch_track env c qry True False st =
     (let raw_query = process_input env (FromQuery qry);
          st2 = emit (LoadTracks (q_str raw_query)) st
      in case load_tracks env (q_str raw_query) of
           Inl e \<Rightarrow>
             if e = KeyError then
               fetch_track_finish env c (is_subset set_lavalink (cache_level env)) raw_query None
                 True st2
             else if e = RuntimeError then (Inl TrackEnqueueError, st2)
             else (Inl e, st2)
         | Inr r \<Rightarrow>
             fetch_track_finish env c (is_subset set_lavalink (cache_level env)) raw_query r
               True st2)"
  by (simp add: fetch_track.simps[of env c qry True False st] Let_def)

lemma fetch_track_lazy_value:
  "fst (fetch_track env c qry forced True st) = Inr (LoadResult env load_failed, False)"
  by (simp add: fetch_track.simps[of env c qry forced True st] Let_def finish_value
      split: prod.splits)

lemma finish_provider_calls [simp]:
  "provider_calls (snd (fetch_track_finish env c ce rq r called st)) = provider_calls st"
  by (simp add: fetch_track_finish_def Let_def split: sum.splits)

lemma cache_provider_calls [simp]:
  "provider_calls (snd (fetch_track_cache env c q st)) = provider_calls st"
  by (simp add: fetch_track_cache_def cache_read_def Let_def split: sum.splits prod.splits)

lemma fetch_track_lazy_calls:
  "provider_calls (snd (fetch_track env c qry forced True st)) = provider_calls st"
proof -
  let ?rq = "process_input env (FromQuery qry)"
  let ?p = "(if is_subset set_lavalink (cache_level env) \<and> \<not> forced \<and> \<not> is_local ?rq
              then fetch_track_cache env c (q_str ?rq) st else (PNone, st))"
  have "provider_calls (snd ?p) = provider_calls st" by simp
  then show ?thesis
    by (simp add: fetch_track.simps[of env c qry forced True st] Let_def split_beta)
qed

lemma fetch_track_no_value:
  assumes "no_cached_value env qry forced"
    and "load_tracks env (q_str (process_input env (FromQuery qry))) = Inr None
         \<or> load_tracks env (q_str (process_input env (FromQuery qry))) = Inl KeyError"
  shows "fst (fetch_track env c qry forced False st) = Inr (LoadResult env load_failed, True)"
proof -
  let ?rq = "process_input env (FromQuery qry)"
  let ?p = "(if is_subset set_lavalink (cache_level env) \<and> \<not> forced \<and> \<not> is_local ?rq
              then fetch_track_cache env c (q_str ?rq) st else (PNone, st))"
  have v: "\<not> truthy (fst ?p) \<or> forced"
    using assms(1)
    by (auto simp: no_cached_value_def Let_def fetch_track_cache_value split: sum.splits)
  obtain val st1 where p: "?p = (val, st1)" by (cases ?p)
  with v have "\<not> (truthy val \<and> \<not> forced)" by auto
  with p assms(2) show ?thesis
    by (subst fetch_track.simps) (auto simp add: Let_def finish_value)
qed

lemma fetch_track_forced_error:
  assumes "fst (fetch_track env c qry True False st) = Inl e"
  shows "\<exists>q e'. load_tracks env q = Inl e' \<and> e' \<noteq> KeyError"
proof (cases "load_tracks env (q_str (process_input env (FromQuery qry)))")
  case (Inl e')
  with assms show ?thesis
    by (cases "e' = KeyError") (auto simp: fetch_track_forced Let_def finish_value)
next
  case (Inr r)
  with assms show ?thesis by (simp add: fetch_track_forced Let_def finish_value)
qed

lemma fetch_track_error:
  assumes "fst (fetch_track env c qry forced lazy st) = Inl e"
  shows "\<exists>q e'. load_tracks env q = Inl e' \<and> e' \<noteq> KeyError"
proof -
  let ?rq = "process_input env (FromQuery qry)"
  let ?p = "(if is_subset set_lavalink (cache_level env) \<and> \<not> forced \<and> \<not> is_local ?rq
              then fetch_track_cache env c (q_str ?rq) st else (PNone, st))"
  obtain val st1 where p: "?p = (val, st1)" by (cases ?p)
  show ?thesis
  proof (cases lazy)
    case True
    with assms show ?thesis by (simp add: fetch_track_lazy_value)
  next
    case False
    note nl = this
    show ?thesis
    proof (cases "truthy val \<and> \<not> forced")
      case True
      show ?thesis
      proof (cases "has_error (LoadResult env (cached_data val (q_str ?rq)))")
        case he: True
        obtain r st2 where rec: "fetch_track env c ?rq True False st1 = (r, st2)"
          by (cases "fetch_track env c ?rq True False st1")
        from assms nl True he p rec have "\<exists>e. r = Inl e"
          by (subst (asm) fetch_track.simps)
            (auto simp add: Let_def finish_value split: sum.splits prod.splits)
        then obtain e2 where "fst (fetch_track env c ?rq True False st1) = Inl e2"
          using rec by auto
        then show ?thesis by (rule fetch_track_forced_error)
      next
        case he: False
        from assms nl True he p show ?thesis
          by (subst (asm) fetch_track.simps) (auto simp add: Let_def finish_value)
      qed
    next
      case nv: False
      show ?thesis
      proof (cases "load_tracks env (q_str ?rq)")
        case (Inl e')
        from assms nl nv p Inl show ?thesis
          by (cases "e' = KeyError")
            ((subst (asm) fetch_track.simps), auto simp add: Let_def finish_value)+
      next
        case (Inr r)
        from assms nl nv p Inr show ?thesis
          by (subst (asm) fetch_track.simps) (auto simp add: Let_def finish_value)
      qed
    qed
  qed
qed

text \<open>
  Claim C10: \<^verbatim>\<open>fetch_track\<close> never returns \<^verbatim>\<open>None\<close> for the result. A lazy call returns
  the \<^verbatim>\<open>LOAD_FAILED\<close> default with \<^verbatim>\<open>called_api\<close> false and does not call the provider. A
  call that is not lazy and has no cached value to use returns the \<^verbatim>\<open>LOAD_FAILED\<close> default,
  with \<^verbatim>\<open>called_api\<close> true, when the provider returns \<^verbatim>\<open>None\<close> or raises a \<^verbatim>\<open>KeyError\<close>.
  An exception leaves \<^verbatim>\<open>fetch_track\<close> only when the provider raised something other than
  a \<^verbatim>\<open>KeyError\<close>.
\<close>

theorem fetch_track_default_result:
  "fst (fetch_track env c qry forced True st) = Inr (LoadResult env load_failed, False)
   \<and> provider_calls (snd (fetch_track env c qry forced True st)) = provider_calls st
   \<and> (no_cached_value env qry forced
        \<and> (load_tracks env (q_str (process_input env (FromQuery qry))) = Inr None
           \<or> load_tracks env (q_str (process_input env (FromQuery qry))) = Inl KeyError)
      \<longrightarrow> fst (fetch_track env c qry forced False st) = Inr (LoadResult env load_failed, True))
   \<and> (\<forall>e. fst (fetch_track env c qry forced lazy st) = Inl e
        \<longrightarrow> (\<exists>q e'. load_tracks env q = Inl e' \<and> e' \<noteq> KeyError))"
  using fetch_track_lazy_value[of env c qry forced st] fetch_track_lazy_calls[of env c qry forced st]
    fetch_track_no_value[of env qry forced c st] fetch_track_error[of env c qry forced lazy st]
  by blast

theorem fetch_track_default_result_witness:
  "no_cached_value env0 q0 False
   \<and> load_tracks env0 (q_str (process_input env0 (FromQuery q0))) = Inr None
   \<and> fst (fetch_track env0 c1 q0 False False st0) = Inr (demo_LoadResult load_failed, True)
   \<and> fst (fetch_track env0 c1 q0 False True st0) = Inr (demo_LoadResult load_failed, False)
   \<and> tracks (demo_LoadResult load_failed) = []
   \<and> load_type (demo_LoadResult load_failed) = PStr ''LOAD_FAILED''
   \<and> fst (fetch_track env_down c1 q0 False False st0) = Inl TrackEnqueueError
   \<and> (\<exists>q e'. load_tracks env_down q = Inl e' \<and> e' \<noteq> KeyError)"
proof -
  have a: "no_cached_value env0 q0 False"
    by (simp add: no_cached_value_def env0_def q0_def)
  have b: "load_tracks env0 (q_str (process_input env0 (FromQuery q0))) = Inr None"
    by (simp add: env0_def)
  have l: "LoadResult env0 = demo_LoadResult" by (simp add: env0_def)
  from fetch_track_default_result[of env0 c1 q0 False st0 False] a b l
  have c: "fst (fetch_track env0 c1 q0 False False st0) = Inr (demo_LoadResult load_failed, True)"
    and d: "fst (fetch_track env0 c1 q0 False True st0) = Inr (demo_LoadResult load_failed, False)"
    by auto
  have e: "tracks (demo_LoadResult load_failed) = []
     \<and> load_type (demo_LoadResult load_failed) = PStr ''LOAD_FAILED''"
    by (simp add: load_failed_def)
  have f: "fst (fetch_track env_down c1 q0 False False st0) = Inl TrackEnqueueError"
    by (subst fetch_track.simps)
      (simp add: Let_def fetch_track_cache_def cache_read_def env_down_def env0_def
        is_subset_def set_lavalink_def q0_def)
  from fetch_track_default_result[of env_down c1 q0 False st0 False] f
  have g: "\<exists>q e'. load_tracks env_down q = Inl e' \<and> e' \<noteq> KeyError"
    by blast
  show ?thesis using a b c d e f g by blast
qed

text \<open>The effect log only grows: what was done stays done.\<close>

lemma prefix_emit: "prefix (effects st) (effects (emit e st))"
  by simp

lemma prefix_cache_read: "prefix (effects st) (effects (snd (cache_read r st)))"
  by (simp add: cache_read_effects)

lemma prefix_fetch_track_cache:
  "prefix (effects st) (effects (snd (fetch_track_cache env c q st)))"
  by (simp add: fetch_track_cache_effects)

lemma prefix_finish:
  "prefix (effects st) (effects (snd (fetch_track_finish env c ce rq r called st)))"
  using finish_effects[of env c ce rq r called st] by auto

lemma prefix_fetch_track_forced:
  "prefix (effects st) (effects (snd (fetch_track env c qry True False st)))"
proof -
  let ?rq = "process_input env (FromQuery qry)"
  let ?st2 = "emit (LoadTracks (q_str ?rq)) st"
  have a: "prefix (effects st) (effects ?st2)" by simp
  have b: "\<And>r called. prefix (effects ?st2)
     (effects (snd (fetch_track_finish env c (is_subset set_lavalink (cache_level env)) ?rq r called ?st2)))"
    by (rule prefix_finish)
  have c: "\<And>r called. prefix (effects st)
     (effects (snd (fetch_track_finish env c (is_subset set_lavalink (cache_level env)) ?rq r called ?st2)))"
    using a b prefix_order.trans by blast
  show ?thesis
    using a c
    by (simp add: fetch_track_forced Let_def split: sum.splits del: effects_emit)
qed

lemma forced_provider_calls:
  "provider_calls (snd (fetch_track env c qry True False st)) =
     provider_calls st @ [q_str (process_input env (FromQuery qry))]"
  by (simp add: fetch_track_forced Let_def split: sum.splits)

lemma prefix_fetch_track:
  "prefix (effects st) (effects (snd (fetch_track env c qry forced lazy st)))"
proof -
  let ?rq = "process_input env (FromQuery qry)"
  let ?ce = "is_subset set_lavalink (cache_level env)"
  let ?p = "(if ?ce \<and> \<not> forced \<and> \<not> is_local ?rq
              then fetch_track_cache env c (q_str ?rq) st else (PNone, st))"
  obtain val st1 where p: "?p = (val, st1)" by (cases ?p)
  have p1: "prefix (effects st) (effects st1)"
    using p prefix_fetch_track_cache[of st env c "q_str ?rq"]
    by (auto split: if_splits)
  have fin: "\<And>r called s. prefix (effects st1) (effects s) \<Longrightarrow>
     prefix (effects st) (effects (snd (fetch_track_finish env c ?ce ?rq r called s)))"
    using p1 prefix_finish prefix_order.trans by blast
  show ?thesis
  proof (cases lazy)
    case True
    with p fin[of st1] show ?thesis
      by (subst fetch_track.simps) (simp add: Let_def)
  next
    case nl: False
    show ?thesis
    proof (cases "truthy val \<and> \<not> forced")
      case tv: True
      show ?thesis
      proof (cases "has_error (LoadResult env (cached_data val (q_str ?rq)))")
        case he: True
        obtain r st2 where rec: "fetch_track env c ?rq True False st1 = (r, st2)"
          by (cases "fetch_track env c ?rq True False st1")
        have "prefix (effects st1) (effects st2)"
          using prefix_fetch_track_forced[of st1 env c ?rq] rec by simp
        with p1 have p2: "prefix (effects st) (effects st2)"
          using prefix_order.trans by blast
        from nl tv he p rec p2 fin[of st2] \<open>prefix (effects st1) (effects st2)\<close> show ?thesis
          by (subst fetch_track.simps)
            (auto simp add: Let_def split: sum.splits prod.splits)
      next
        case he: False
        from nl tv he p fin[of st1] show ?thesis
          by (subst fetch_track.simps) (auto simp add: Let_def)
      qed
    next
      case nv: False
      have e2: "prefix (effects st1) (effects (emit (LoadTracks (q_str ?rq)) st1))" by simp
      with p1 have p2: "prefix (effects st) (effects (emit (LoadTracks (q_str ?rq)) st1))"
        using prefix_order.trans by blast
      from nl nv p p2 fin[OF e2] show ?thesis
        by (subst fetch_track.simps)
          (auto simp add: Let_def split: sum.splits simp del: effects_emit)
    qed
  qed
qed

text \<open>
  The refetch of a cached result that reports an error: the value is the forced call's,
  and the provider is called.
\<close>

lemma fetch_track_refetch:
  assumes ce: "is_subset set_lavalink (cache_level env)"
    and nl: "\<not> is_local (process_input env (FromQuery qry))"
    and hit: "lavalink_fetch_one env (q_str (process_input env (FromQuery qry))) = Inr (val, upd)"
    and tv: "truthy val" and dv: "is_dict val"
    and he: "has_error (LoadResult env (cached_data val (q_str (process_input env (FromQuery qry)))))"
  shows "fst (fetch_track env c qry False False st) =
           fst (fetch_track env c (process_input env (FromQuery qry)) True False
                  (append_task c Update
                     (task ''lavalink'' (PDict [(''query'', PStr (q_str (process_input env (FromQuery qry))))]))
                     None st))"
    and "provider_calls (snd (fetch_track env c qry False False st)) =
           provider_calls st @ [q_str (process_input env (FromQuery (process_input env (FromQuery qry))))]"
proof -
  let ?rq = "process_input env (FromQuery qry)"
  let ?st1 = "append_task c Update (task ''lavalink'' (PDict [(''query'', PStr (q_str ?rq))])) None st"
  have cache: "fetch_track_cache env c (q_str ?rq) st = (val, ?st1)"
    using hit tv dv by (simp add: fetch_track_cache_def cache_read_def)
  obtain r st2 where rec: "fetch_track env c ?rq True False ?st1 = (r, st2)"
    by (cases "fetch_track env c ?rq True False ?st1")
  have unfold: "fetch_track env c qry False False st =
      (case r of Inl e \<Rightarrow> (Inl e, st2)
       | Inr (results2, called_api) \<Rightarrow>
           fetch_track_finish env c True ?rq (Some results2) called_api st2)"
    using ce nl tv he cache rec
    by (subst fetch_track.simps) (simp add: Let_def split: sum.splits prod.splits)
  show "fst (fetch_track env c qry False False st) = fst (fetch_track env c ?rq True False ?st1)"
    unfolding unfold rec by (simp add: finish_value split: sum.splits prod.splits)
  have "provider_calls st2 = provider_calls ?st1 @ [q_str (process_input env (FromQuery ?rq))]"
    using forced_provider_calls[of env c ?rq ?st1] rec by simp
  then show "provider_calls (snd (fetch_track env c qry False False st)) =
           provider_calls st @ [q_str (process_input env (FromQuery ?rq))]"
    unfolding unfold by (simp split: sum.splits prod.splits)
qed

text \<open>
  Claim C5, as amended: for a call that is neither forced nor lazy, on a query that is not
  local, with the Lavalink scope enabled, a cached dictionary whose \<^verbatim>\<open>LoadResult\<close> reports
  an error makes \<^verbatim>\<open>fetch_track\<close> call itself with \<^verbatim>\<open>forced=True\<close>: what it returns is what
  that forced call returns, and the provider is called exactly once, for the normalised
  query.
\<close>

theorem cached_error_refetched:
  assumes "is_subset set_lavalink (cache_level env)"
    and "\<not> is_local (process_input env (FromQuery qry))"
    and "lavalink_fetch_one env (q_str (process_input env (FromQuery qry))) = Inr (val, upd)"
    and "truthy val" and "is_dict val"
    and "has_error (LoadResult env (cached_data val (q_str (process_input env (FromQuery qry)))))"
  shows "fst (fetch_track env c qry False False st) =
           fst (fetch_track env c (process_input env (FromQuery qry)) True False
                  (append_task c Update
                     (task ''lavalink'' (PDict [(''query'', PStr (q_str (process_input env (FromQuery qry))))]))
                     None st))
         \<and> provider_calls (snd (fetch_track env c qry False False st)) =
           provider_calls st @ [q_str (process_input env (FromQuery (process_input env (FromQuery qry))))]"
  using fetch_track_refetch[OF assms] by blast

theorem cached_error_refetched_witness:
  "fst (fetch_track env_stale c1 q0 False False st0) = Inr (demo_LoadResult good_raw, True)
   \<and> provider_calls (snd (fetch_track env_stale c1 q0 False False st0)) = [''u'']"
proof -
  let ?val = "PDict [(''loadType'', PStr ''LOAD_FAILED'')]"
  have pi: "process_input env_stale (FromQuery q0) = q0"
    by (simp add: env_stale_def env0_def)
  have a: "is_subset set_lavalink (cache_level env_stale)"
    by (simp add: env_stale_def env0_def is_subset_def set_lavalink_def)
  have b: "\<not> is_local (process_input env_stale (FromQuery q0))"
    by (simp add: pi) (simp add: q0_def)
  have c: "lavalink_fetch_one env_stale (q_str (process_input env_stale (FromQuery q0)))
             = Inr (?val, PBool False)"
    by (simp add: env_stale_def env0_def)
  have d: "truthy ?val" "is_dict ?val" by simp_all
  have e: "has_error (LoadResult env_stale
             (cached_data ?val (q_str (process_input env_stale (FromQuery q0)))))"
    by (simp add: env_stale_def env0_def q0_def)
  have f: "fst (fetch_track env_stale c1 q0 True False
                  (append_task c1 Update (task ''lavalink'' (PDict [(''query'', PStr (q_str q0))])) None st0))
             = Inr (demo_LoadResult good_raw, True)"
    by (simp add: fetch_track_forced Let_def finish_value env_stale_def env0_def)
  have g: "provider_calls st0 = []" by (simp add: provider_calls_def st0_def)
  have h: "q_str q0 = ''u''" by (simp add: q0_def)
  from cached_error_refetched[OF a b c d e, of c1 st0] f g h show ?thesis
    by (simp add: pi)
qed

text \<open>
  The claim as stated fails for a lazy call: the cached entry reports an error and a
  forced fetch would return the provider's track, but \<^verbatim>\<open>elif lazy is True\<close> comes first,
  so the call returns the \<^verbatim>\<open>LOAD_FAILED\<close> default and the provider is not called.
\<close>

theorem lazy_call_skips_refetch:
  "lavalink_fetch_one env_stale (q_str (process_input env_stale (FromQuery q0)))
     = Inr (PDict [(''loadType'', PStr ''LOAD_FAILED'')], PBool False)
   \<and> has_error (LoadResult env_stale (cached_data (PDict [(''loadType'', PStr ''LOAD_FAILED'')]) ''u''))
   \<and> fst (fetch_track env_stale c1 q0 True False st0) = Inr (demo_LoadResult good_raw, True)
   \<and> fst (fetch_track env_stale c1 q0 False True st0) = Inr (demo_LoadResult load_failed, False)
   \<and> provider_calls (snd (fetch_track env_stale c1 q0 False True st0)) = []"
proof -
  have pi: "process_input env_stale (FromQuery q0) = q0"
    by (simp add: env_stale_def env0_def)
  have l: "LoadResult env_stale = demo_LoadResult" by (simp add: env_stale_def env0_def)
  have a: "lavalink_fetch_one env_stale (q_str (process_input env_stale (FromQuery q0)))
     = Inr (PDict [(''loadType'', PStr ''LOAD_FAILED'')], PBool False)"
    by (simp add: env_stale_def env0_def)
  have b: "has_error (LoadResult env_stale (cached_data (PDict [(''loadType'', PStr ''LOAD_FAILED'')]) ''u''))"
    by (simp add: l)
  have c: "fst (fetch_track env_stale c1 q0 True False st0) = Inr (demo_LoadResult good_raw, True)"
    by (simp add: fetch_track_forced Let_def finish_value env_stale_def env0_def)
  have d: "fst (fetch_track env_stale c1 q0 False True st0) = Inr (demo_LoadResult load_failed, False)"
    by (simp add: fetch_track_lazy_value l)
  have e: "provider_calls (snd (fetch_track env_stale c1 q0 False True st0)) = []"
    by (simp add: fetch_track_lazy_calls) (simp add: provider_calls_def st0_def)
  show ?thesis using a b c d e by blast
qed

text \<open>
  The inserts a forced call stages: one more exactly when its result, with the scope
  enabled and the query not local, is cacheable.
\<close>

lemma forced_inserts:
  assumes "fetch_track env c qry True False st = (Inr (results, called), st')"
  shows "length (inserts st (ctx_message_id c)) \<le> length (inserts st' (ctx_message_id c))"
    and "\<not> cacheable env results
           \<Longrightarrow> length (inserts st' (ctx_message_id c)) = length (inserts st (ctx_message_id c))"
proof -
  let ?rq = "process_input env (FromQuery qry)"
  let ?ce = "is_subset set_lavalink (cache_level env)"
  let ?st2 = "emit (LoadTracks (q_str ?rq)) st"
  have "\<exists>r. fetch_track_finish env c ?ce ?rq r True ?st2 = (Inr (results, called), st')"
    using assms
    by (auto simp add: fetch_track_forced Let_def split: sum.splits if_splits)
  then obtain r where fin: "fetch_track_finish env c ?ce ?rq r True ?st2 = (Inr (results, called), st')"
    by blast
  have res: "results = (case r of None \<Rightarrow> LoadResult env load_failed | Some x \<Rightarrow> x)"
    using fin finish_value[of env c ?ce ?rq r True ?st2] by simp
  have le: "length (inserts ?st2 (ctx_message_id c)) \<le> length (inserts st' (ctx_message_id c))"
    using finish_inserts_le[of ?st2 c env ?ce ?rq r True] fin by simp
  then show "length (inserts st (ctx_message_id c)) \<le> length (inserts st' (ctx_message_id c))"
    by simp
  assume "\<not> cacheable env results"
  then have "\<not> length (inserts ?st2 (ctx_message_id c)) < length (inserts st' (ctx_message_id c))"
    using finish_inserts[of ?st2 c env ?ce ?rq r True] fin res by simp
  with le show "length (inserts st' (ctx_message_id c)) = length (inserts st (ctx_message_id c))"
    by simp
qed

lemma fetch_track_inserts:
  assumes ce: "is_subset set_lavalink (cache_level env)"
    and nl: "\<not> is_local (process_input env (FromQuery qry))"
    and res: "fst (fetch_track env c qry forced lazy st) = Inr (results, called_api)"
  shows "length (inserts st (ctx_message_id c))
           < length (inserts (snd (fetch_track env c qry forced lazy st)) (ctx_message_id c))
         \<longleftrightarrow> cacheable env results"
proof -
  let ?rq = "process_input env (FromQuery qry)"
  let ?k = "ctx_message_id c"
  let ?p = "(if True \<and> \<not> forced \<and> \<not> is_local ?rq
              then fetch_track_cache env c (q_str ?rq) st else (PNone, st))"
  obtain val st1 where p: "?p = (val, st1)" by (cases ?p)
  have i1: "inserts st1 ?k = inserts st ?k"
  proof -
    have "st1 = snd ?p" using p by simp
    then show ?thesis by simp
  qed
  have fin: "\<And>r called s. inserts s ?k = inserts st ?k \<Longrightarrow>
      length (inserts st ?k) < length (inserts (snd (fetch_track_finish env c True ?rq r called s)) ?k)
      \<longleftrightarrow> cacheable env (case r of None \<Rightarrow> LoadResult env load_failed | Some x \<Rightarrow> x)"
  proof -
    fix r called s
    assume e: "inserts s ?k = inserts st ?k"
    show "length (inserts st ?k) < length (inserts (snd (fetch_track_finish env c True ?rq r called s)) ?k)
      \<longleftrightarrow> cacheable env (case r of None \<Rightarrow> LoadResult env load_failed | Some x \<Rightarrow> x)"
      using finish_inserts[of s c env True ?rq r called] nl by (simp add: e)
  qed
  show ?thesis
  proof (cases lazy)
    case True
    have u: "fetch_track env c qry forced lazy st = fetch_track_finish env c True ?rq None False st1"
      using True p ce by (subst fetch_track.simps) (simp add: Let_def)
    from res have "results = LoadResult env load_failed"
      unfolding u by (simp add: finish_value)
    with fin[OF i1, of None False] show ?thesis unfolding u by simp
  next
    case nlz: False
    show ?thesis
    proof (cases "truthy val \<and> \<not> forced")
      case tv: True
      show ?thesis
      proof (cases "has_error (LoadResult env (cached_data val (q_str ?rq)))")
        case he: True
        obtain r st2 where rec: "fetch_track env c ?rq True False st1 = (r, st2)"
          by (cases "fetch_track env c ?rq True False st1")
        have u: "fetch_track env c qry forced lazy st =
            (case r of Inl e \<Rightarrow> (Inl e, st2)
             | Inr (results2, called) \<Rightarrow>
                 fetch_track_finish env c True ?rq (Some results2) called st2)"
          using nlz tv he p rec ce
          by (subst fetch_track.simps) (simp add: Let_def split: sum.splits prod.splits)
        from res obtain called2 where r: "r = Inr (results, called2)"
          unfolding u by (auto simp add: finish_value split: sum.splits prod.splits)
        have le: "length (inserts st ?k) \<le> length (inserts st2 ?k)"
          using forced_inserts(1)[of env c ?rq st1 results called2 st2] rec r i1 by simp
        have out: "length (inserts st2 ?k)
            < length (inserts (snd (fetch_track_finish env c True ?rq (Some results) called2 st2)) ?k)
            \<longleftrightarrow> cacheable env results"
          using finish_inserts[of st2 c env True ?rq "Some results" called2] nl by simp
        show ?thesis
        proof (cases "cacheable env results")
          case True
          with out le show ?thesis unfolding u r by simp
        next
          case False
          have eq: "length (inserts st2 ?k) = length (inserts st ?k)"
            using forced_inserts(2)[of env c ?rq st1 results called2 st2] rec r i1 False by simp
          from False out eq show ?thesis unfolding u r by simp
        qed
      next
        case he: False
        have u: "fetch_track env c qry forced lazy st =
            fetch_track_finish env c True ?rq
              (Some (LoadResult env (cached_data val (q_str ?rq)))) False st1"
          using nlz tv he p ce by (subst fetch_track.simps) (simp add: Let_def)
        from res have "results = LoadResult env (cached_data val (q_str ?rq))"
          unfolding u by (simp add: finish_value)
        with fin[OF i1, of "Some (LoadResult env (cached_data val (q_str ?rq)))" False]
        show ?thesis unfolding u by simp
      qed
    next
      case nv: False
      let ?st2 = "emit (LoadTracks (q_str ?rq)) st1"
      have i2: "inserts ?st2 ?k = inserts st ?k" using i1 by simp
      from res nlz nv p ce
      have "\<exists>r. fetch_track env c qry forced lazy st = fetch_track_finish env c True ?rq r True ?st2"
        by (subst fetch_track.simps, subst (asm) fetch_track.simps)
          (auto simp add: Let_def split: sum.splits if_splits)
      then obtain r where
        u: "fetch_track env c qry forced lazy st = fetch_track_finish env c True ?rq r True ?st2"
        by blast
      from res have "results = (case r of None \<Rightarrow> LoadResult env load_failed | Some x \<Rightarrow> x)"
        unfolding u by (simp add: finish_value)
      with fin[OF i2, of r True] show ?thesis unfolding u by simp
    qed
  qed
qed

text \<open>
  Claim C6, as amended: with the playable-track scope enabled and a query that is not
  local, a \<^verbatim>\<open>fetch_track\<close> call that returns \<^verbatim>\<open>results\<close> stages a cache insert if and
  only if \<^verbatim>\<open>results\<close> has a truthy load type, no error, at least one track, and a
  \<^verbatim>\<open>json.dumps\<close> text in which each of the four names \<^verbatim>\<open>loadType\<close>, \<^verbatim>\<open>playlistInfo\<close>,
  \<^verbatim>\<open>isSeekable\<close> and \<^verbatim>\<open>isStream\<close> occurs as a substring (\<^verbatim>\<open>k in data\<close> on the string
  \<^verbatim>\<open>data\<close>). Where in the response the names occur is not checked.
\<close>

theorem insert_staged_iff_cacheable:
  assumes "is_subset set_lavalink (cache_level env)"
    and "\<not> is_local (process_input env (FromQuery qry))"
    and "fst (fetch_track env c qry forced lazy st) = Inr (results, called_api)"
  shows "length (inserts st (ctx_message_id c))
           < length (inserts (snd (fetch_track env c qry forced lazy st)) (ctx_message_id c))
         \<longleftrightarrow> cacheable env results"
  using fetch_track_inserts[OF assms] .

lemma contains_keys_good_raw: "list_all (\<lambda>k. contains k (py_json_dumps good_raw)) shape_keys"
  by (simp add: shape_keys_def good_raw_def quote_def)

lemma cacheable_good: "cacheable env_found (demo_LoadResult good_raw)"
proof -
  have "json_dumps env_found (raw (demo_LoadResult good_raw)) = Inr (py_json_dumps good_raw)"
    by (simp add: env_found_def env0_def good_raw_def)
  moreover have "truthy (load_type (demo_LoadResult good_raw))
      \<and> \<not> has_error (demo_LoadResult good_raw) \<and> tracks (demo_LoadResult good_raw) \<noteq> []"
    by (simp add: good_raw_def)
  ultimately show ?thesis
    using contains_keys_good_raw by (simp add: cacheable_def)
qed

lemma fetch_found_value:
  "fst (fetch_track env_found c1 q0 False False st0) = Inr (demo_LoadResult good_raw, True)"
  by (subst fetch_track.simps)
    (simp add: Let_def finish_value fetch_track_cache_def cache_read_def env_found_def env0_def
      is_subset_def set_lavalink_def q0_def)

theorem insert_staged_iff_cacheable_witness:
  "cacheable env_found (demo_LoadResult good_raw)
   \<and> length (inserts st0 (ctx_message_id c1))
       < length (inserts (snd (fetch_track env_found c1 q0 False False st0)) (ctx_message_id c1))"
proof -
  have a: "is_subset set_lavalink (cache_level env_found)"
    by (simp add: env_found_def env0_def is_subset_def set_lavalink_def)
  have b: "\<not> is_local (process_input env_found (FromQuery q0))"
    by (simp add: env_found_def env0_def q0_def)
  from insert_staged_iff_cacheable[OF a b fetch_found_value] cacheable_good
  show ?thesis by blast
qed

text \<open>
  The claim as stated fails: the provider's response has \<^verbatim>\<open>isSeekable\<close> and \<^verbatim>\<open>isStream\<close>
  inside the track's \<^verbatim>\<open>info\<close>, not among its top-level keys, and its insert is staged all
  the same, because the four names occur in the serialised text.
\<close>

theorem nested_shape_keys_staged:
  "\<not> has_top_level_keys (raw (demo_LoadResult good_raw)) shape_keys
   \<and> is_subset set_lavalink (cache_level env_found)
   \<and> \<not> is_local (process_input env_found (FromQuery q0))
   \<and> fst (fetch_track env_found c1 q0 False False st0) = Inr (demo_LoadResult good_raw, True)
   \<and> length (inserts st0 (ctx_message_id c1))
       < length (inserts (snd (fetch_track env_found c1 q0 False False st0)) (ctx_message_id c1))"
proof -
  have a: "is_subset set_lavalink (cache_level env_found)"
    by (simp add: env_found_def env0_def is_subset_def set_lavalink_def)
  have b: "\<not> is_local (process_input env_found (FromQuery q0))"
    by (simp add: env_found_def env0_def q0_def)
  have c: "\<not> has_top_level_keys (raw (demo_LoadResult good_raw)) shape_keys"
    by (simp add: good_raw_def shape_keys_def)
  from fetch_track_inserts[OF a b fetch_found_value] cacheable_good
  have d: "length (inserts st0 (ctx_message_id c1))
       < length (inserts (snd (fetch_track env_found c1 q0 False False st0)) (ctx_message_id c1))"
    by blast
  show ?thesis using a b c d fetch_found_value by blast
qed

section \<open>Cache reads that raise\<close>

lemma kept_emit: "x \<in> set (effects st) \<Longrightarrow> x \<in> set (effects (emit e st))"
  by simp

lemma kept_fetch_track:
  "x \<in> set (effects st) \<Longrightarrow> x \<in> set (effects (snd (fetch_track env c qry forced lazy st)))"
  using prefix_fetch_track[of st env c qry forced lazy] set_mono_prefix by blast

lemma first_time_query_value:
  "fst (youtube_first_time_query env c ti lvl st) = youtube_get_call env ti"
  by (simp add: youtube_first_time_query_def Let_def)

lemma first_time_query_effects:
  "effects (snd (youtube_first_time_query env c ti lvl st)) = effects st @ [YouTubeGetCall ti]"
  by (simp add: youtube_first_time_query_def Let_def)

lemma youtube_lookup_effects:
  "\<exists>new. effects (snd (youtube_lookup env c ti lvl st)) = effects st @ new"
  by (simp add: youtube_lookup_def Let_def split_beta cache_read_effects first_time_query_effects)

lemma kept_youtube_lookup:
  "x \<in> set (effects st) \<Longrightarrow> x \<in> set (effects (snd (youtube_lookup env c ti lvl st)))"
  using youtube_lookup_effects[of env c ti lvl st] by auto

lemma kept_abort_batch:
  "x \<in> set (effects st) \<Longrightarrow> x \<in> set (effects (snd (abort_batch notifier msg st)))"
  by (simp add: abort_batch_def notify_def)

lemma kept_enqueue_fetch:
  assumes "x \<in> set (effects (snd (youtube_lookup env c ti (cache_level env) st)))"
  shows "x \<in> set (effects (snd (enqueue_fetch env c notifier ti st)))"
proof -
  obtain val st1 where yl: "youtube_lookup env c ti (cache_level env) st = (val, st1)"
    by (cases "youtube_lookup env c ti (cache_level env) st")
  with assms have x1: "x \<in> set (effects st1)" by simp
  obtain r st2 where ft:
    "fetch_track env c (process_input env (FromValue val)) False False st1 = (r, st2)"
    by (cases "fetch_track env c (process_input env (FromValue val)) False False st1")
  have x2: "x \<in> set (effects st2)"
    using kept_fetch_track[OF x1, of env c "process_input env (FromValue val)" False False] ft
    by simp
  show ?thesis
    using x1 x2 yl ft kept_abort_batch[OF x2]
    by (auto simp add: enqueue_fetch_def split: sum.splits prod.splits)
qed

lemma youtube_lookup_fault:
  assumes "is_subset set_youtube lvl" and "youtube_fetch_one env ti = Inl e"
  shows "fst (youtube_lookup env c ti lvl st) = youtube_get_call env ti"
    and "YouTubeGetCall ti \<in> set (effects (snd (youtube_lookup env c ti lvl st)))"
  using assms
  by (simp_all add: youtube_lookup_def Let_def split_beta cache_read_def
      first_time_query_value first_time_query_effects)

lemma youtube_query_fault:
  assumes "is_subset set_youtube (cache_level env)" and "youtube_fetch_one env ti = Inl e"
  shows "fst (youtube_query env c ti st) = youtube_get_call env ti"
    and "YouTubeGetCall ti \<in> set (effects (snd (youtube_query env c ti st)))"
  using assms
  by (simp_all add: youtube_query_def Let_def split_beta cache_read_def
      first_time_query_value first_time_query_effects)

lemma kept_first_time_loop:
  "x \<in> set (effects st)
   \<Longrightarrow> x \<in> set (effects (snd (snd (first_time_loop env c notifier sk lvl total_tracks listed acc st))))"
proof (induction listed arbitrary: acc st notifier sk total_tracks)
  case Nil
  then show ?case by simp
next
  case (Cons t rest)
  obtain urls entries n where acc: "acc = (urls, entries, n)" by (cases acc)
  show ?case
  proof (cases "invalid_id t")
    case (Inl e)
    with Cons.prems show ?thesis by (simp add: acc)
  next
    case (Inr b)
    show ?thesis
    proof (cases b)
      case True
      with Inr Cons show ?thesis by (simp add: acc)
    next
      case False
      have yl: "x \<in> set (effects (snd (youtube_lookup env c
                  (fst (snd (get_spotify_track_info env t))) lvl st)))"
        using Cons.prems by (rule kept_youtube_lookup)
      show ?thesis
        using Inr False Cons.prems yl
        by (auto simp add: acc Let_def split_beta intro!: Cons.IH)
    qed
  qed
qed

lemma spotify_query_fault:
  assumes "is_subset set_spotify (cache_level env)"
    and "spotify_fetch_one env (''spotify:track:'' @ u) = Inl e"
  shows "spotify_query env c ''track'' u sk notifier st =
           spotify_first_time_query env c ''track'' u notifier sk (cache_level env)
             (emit (DebugExcLog e) st)"
    and "SpotifyFetchTracks ''track'' u \<in> set (effects (snd (spotify_query env c ''track'' u sk notifier st)))"
proof -
  show a: "spotify_query env c ''track'' u sk notifier st =
           spotify_first_time_query env c ''track'' u notifier sk (cache_level env)
             (emit (DebugExcLog e) st)"
    using assms by (simp add: spotify_query_def cache_read_def)
  let ?st1 = "emit (SpotifyFetchTracks ''track'' u) (emit (DebugExcLog e) st)"
  have x: "SpotifyFetchTracks ''track'' u \<in> set (effects ?st1)" by simp
  have "SpotifyFetchTracks ''track'' u \<in> set (effects (snd
          (spotify_first_time_query env c ''track'' u notifier sk (cache_level env)
             (emit (DebugExcLog e) st))))"
  proof (cases "spotify_fetch_tracks env ''track'' u")
    case (Inl e')
    then show ?thesis by (simp add: spotify_first_time_query_def Let_def)
  next
    case (Inr listed)
    obtain r acc st2 where l:
      "first_time_loop env c notifier sk (cache_level env) (length listed) listed ([], [], 0) ?st1
         = (r, acc, st2)"
      by (cases "first_time_loop env c notifier sk (cache_level env) (length listed) listed
                   ([], [], 0) ?st1") auto
    have "SpotifyFetchTracks ''track'' u \<in> set (effects st2)"
      using kept_first_time_loop[OF x, of env c notifier sk "cache_level env" "length listed"
          listed "([], [], 0)"] l by simp
    with Inr l show ?thesis
      by (auto simp add: spotify_first_time_query_def Let_def split: option.splits prod.splits)
  qed
  with a show "SpotifyFetchTracks ''track'' u
      \<in> set (effects (snd (spotify_query env c ''track'' u sk notifier st)))"
    by simp
qed

text \<open>
  Without a cached value, a call that is not lazy returns what a forced call returns
  and calls the provider once.
\<close>

lemma fetch_track_miss:
  assumes "no_cached_value env qry forced"
  shows "fst (fetch_track env c qry forced False st) = fst (fetch_track env c qry True False st')"
    and "provider_calls (snd (fetch_track env c qry forced False st)) =
           provider_calls st @ [q_str (process_input env (FromQuery qry))]"
proof -
  let ?rq = "process_input env (FromQuery qry)"
  let ?ce = "is_subset set_lavalink (cache_level env)"
  let ?p = "(if ?ce \<and> \<not> forced \<and> \<not> is_local ?rq
              then fetch_track_cache env c (q_str ?rq) st else (PNone, st))"
  have v: "\<not> truthy (fst ?p) \<or> forced"
    using assms
    by (auto simp: no_cached_value_def Let_def fetch_track_cache_value split: sum.splits)
  obtain val st1 where p: "?p = (val, st1)" by (cases ?p)
  with v have nv: "\<not> (truthy val \<and> \<not> forced)" by auto
  have "st1 = snd ?p" using p by simp
  then have pc: "provider_calls st1 = provider_calls st" by simp
  from p nv show "fst (fetch_track env c qry forced False st) = fst (fetch_track env c qry True False st')"
    by (subst fetch_track.simps)
      (auto simp add: Let_def finish_value fetch_track_forced split: sum.splits)
  from p nv pc show "provider_calls (snd (fetch_track env c qry forced False st)) =
           provider_calls st @ [q_str ?rq]"
    by (subst fetch_track.simps) (auto simp add: Let_def split: sum.splits)
qed

lemma forced_value_lavalink_miss:
  "fst (fetch_track (lavalink_miss env) c qry True False st) = fst (fetch_track env c qry True False st)"
  by (simp add: fetch_track_forced Let_def finish_value lavalink_miss_def
      split: sum.splits option.splits)

lemma fetch_track_fault:
  assumes ce: "is_subset set_lavalink (cache_level env)"
    and nl: "\<not> is_local (process_input env (FromQuery qry))"
    and fault: "lavalink_fetch_one env (q_str (process_input env (FromQuery qry))) = Inl e"
  shows "fst (fetch_track env c qry False lazy st) = fst (fetch_track (lavalink_miss env) c qry False lazy st)"
    and "\<not> lazy \<Longrightarrow> provider_calls (snd (fetch_track env c qry False lazy st)) =
           provider_calls st @ [q_str (process_input env (FromQuery qry))]"
proof -
  have n1: "no_cached_value env qry False"
    using fault by (simp add: no_cached_value_def Let_def)
  have n2: "no_cached_value (lavalink_miss env) qry False"
    by (simp add: no_cached_value_def Let_def lavalink_miss_def)
  show "fst (fetch_track env c qry False lazy st) = fst (fetch_track (lavalink_miss env) c qry False lazy st)"
  proof (cases lazy)
    case True
    then show ?thesis by (simp add: fetch_track_lazy_value) (simp add: lavalink_miss_def)
  next
    case False
    then show ?thesis
      using fetch_track_miss(1)[OF n1, of c st st] fetch_track_miss(1)[OF n2, of c st st]
        forced_value_lavalink_miss[of env c qry st]
      by simp
  qed
  assume "\<not> lazy"
  then show "provider_calls (snd (fetch_track env c qry False lazy st)) =
           provider_calls st @ [q_str (process_input env (FromQuery qry))]"
    using fetch_track_miss(2)[OF n1, of c st] by simp
qed

text \<open>
  Claim C3, as amended: at every cache read of the pipeline an exception of
  \<^verbatim>\<open>fetch_one\<close> is caught and the read counts as a miss. In \<^verbatim>\<open>youtube_query\<close>, in the
  per-track lookup of \<^verbatim>\<open>_spotify_first_time_query\<close> and \<^verbatim>\<open>spotify_enqueue\<close>, and in
  \<^verbatim>\<open>spotify_query\<close> the external provider is then called (the YouTube API, the Spotify
  listing). In \<^verbatim>\<open>fetch_track\<close> the call returns what it returns when the table holds
  nothing for the query, and calls the provider unless the call is lazy.
\<close>

theorem storage_fault_is_cache_miss:
  "(is_subset set_youtube (cache_level env) \<and> youtube_fetch_one env ti = Inl e \<longrightarrow>
      fst (youtube_query env c ti st) = youtube_get_call env ti
      \<and> YouTubeGetCall ti \<in> set (effects (snd (youtube_query env c ti st)))
      \<and> fst (youtube_lookup env c ti (cache_level env) st) = youtube_get_call env ti
      \<and> YouTubeGetCall ti \<in> set (effects (snd (enqueue_fetch env c notifier ti st))))
   \<and> (is_subset set_spotify (cache_level env)
        \<and> spotify_fetch_one env (''spotify:track:'' @ u) = Inl e \<longrightarrow>
      spotify_query env c ''track'' u sk notifier st =
        spotify_first_time_query env c ''track'' u notifier sk (cache_level env)
          (emit (DebugExcLog e) st)
      \<and> SpotifyFetchTracks ''track'' u
          \<in> set (effects (snd (spotify_query env c ''track'' u sk notifier st))))
   \<and> (is_subset set_lavalink (cache_level env)
        \<and> \<not> is_local (process_input env (FromQuery qry))
        \<and> lavalink_fetch_one env (q_str (process_input env (FromQuery qry))) = Inl e \<longrightarrow>
      fst (fetch_track env c qry False lazy st)
        = fst (fetch_track (lavalink_miss env) c qry False lazy st)
      \<and> (\<not> lazy \<longrightarrow>
           provider_calls (snd (fetch_track env c qry False lazy st)) =
             provider_calls st @ [q_str (process_input env (FromQuery qry))]))"
  using youtube_query_fault[of env ti e c st]
    youtube_lookup_fault[of "cache_level env" env ti e c st]
    kept_enqueue_fetch[where x="YouTubeGetCall ti" and env=env and c=c and ti=ti and st=st
      and notifier=notifier]
    spotify_query_fault[of env u e c sk notifier st]
    fetch_track_fault[where env=env and qry=qry and e=e and c=c and lazy=lazy and st=st]
  by blast

theorem storage_fault_is_cache_miss_witness:
  "youtube_fetch_one env_fault (PStr ''song'') = Inl StorageError
   \<and> fst (youtube_query env_fault c1 (PStr ''song'') st0) = PStr ''u''
   \<and> YouTubeGetCall (PStr ''song'') \<in> set (effects (snd (enqueue_fetch env_fault c1 True (PStr ''song'') st0)))
   \<and> spotify_fetch_one env_fault (''spotify:track:'' @ ''x'') = Inl StorageError
   \<and> SpotifyFetchTracks ''track'' ''x''
        \<in> set (effects (snd (spotify_query env_fault c1 ''track'' ''x'' False True st0)))
   \<and> lavalink_fetch_one env_fault (q_str (process_input env_fault (FromQuery q0))) = Inl StorageError
   \<and> provider_calls (snd (fetch_track env_fault c1 q0 False False st0)) = [''u'']"
proof -
  have y: "is_subset set_youtube (cache_level env_fault)"
    and s: "is_subset set_spotify (cache_level env_fault)"
    and l: "is_subset set_lavalink (cache_level env_fault)"
    by (simp_all add: env_fault_def env0_def is_subset_def set_youtube_def set_spotify_def
        set_lavalink_def)
  have f1: "youtube_fetch_one env_fault (PStr ''song'') = Inl StorageError"
    and f2: "spotify_fetch_one env_fault (''spotify:track:'' @ ''x'') = Inl StorageError"
    and f3: "lavalink_fetch_one env_fault (q_str (process_input env_fault (FromQuery q0)))
               = Inl StorageError"
    by (simp_all add: env_fault_def env0_def)
  have nl: "\<not> is_local (process_input env_fault (FromQuery q0))"
    by (simp add: env_fault_def env0_def q0_def)
  have g: "youtube_get_call env_fault (PStr ''song'') = PStr ''u''"
    and q: "q_str (process_input env_fault (FromQuery q0)) = ''u''"
    and p: "provider_calls st0 = []"
    by (simp_all add: env_fault_def env0_def q0_def provider_calls_def st0_def)
  note t = storage_fault_is_cache_miss[of env_fault "PStr ''song''" StorageError c1 st0 True
      "''x''" False q0 False]
  from t y f1 have a: "fst (youtube_query env_fault c1 (PStr ''song'') st0)
      = youtube_get_call env_fault (PStr ''song'')"
    by blast
  from t y f1 have b: "YouTubeGetCall (PStr ''song'')
      \<in> set (effects (snd (enqueue_fetch env_fault c1 True (PStr ''song'') st0)))"
    by blast
  from t s f2 have c: "SpotifyFetchTracks ''track'' ''x''
      \<in> set (effects (snd (spotify_query env_fault c1 ''track'' ''x'' False True st0)))"
    by blast
  from t l nl f3 have d: "provider_calls (snd (fetch_track env_fault c1 q0 False False st0))
      = provider_calls st0 @ [q_str (process_input env_fault (FromQuery q0))]"
    by blast
  show ?thesis using a b c d f1 f2 f3 g q p by simp
qed

text \<open>
  The claim as stated fails for a lazy \<^verbatim>\<open>fetch_track\<close>: the cache read raises, the
  exception is caught, and the call returns the \<^verbatim>\<open>LOAD_FAILED\<close> default without calling
  the provider, which would have found the track.
\<close>

theorem lazy_fault_no_provider_call:
  "is_subset set_lavalink (cache_level env_fault)
   \<and> \<not> is_local (process_input env_fault (FromQuery q0))
   \<and> lavalink_fetch_one env_fault (q_str (process_input env_fault (FromQuery q0))) = Inl StorageError
   \<and> load_tracks env_fault (q_str (process_input env_fault (FromQuery q0)))
       = Inr (Some (demo_LoadResult good_raw))
   \<and> fst (fetch_track env_fault c1 q0 False True st0) = Inr (demo_LoadResult load_failed, False)
   \<and> provider_calls (snd (fetch_track env_fault c1 q0 False True st0)) = []"
proof -
  have a: "is_subset set_lavalink (cache_level env_fault)"
    by (simp add: env_fault_def env0_def is_subset_def set_lavalink_def)
  have b: "\<not> is_local (process_input env_fault (FromQuery q0))"
    by (simp add: env_fault_def env0_def q0_def)
  have c: "lavalink_fetch_one env_fault (q_str (process_input env_fault (FromQuery q0)))
             = Inl StorageError"
    and d: "load_tracks env_fault (q_str (process_input env_fault (FromQuery q0)))
             = Inr (Some (demo_LoadResult good_raw))"
    and l: "LoadResult env_fault = demo_LoadResult"
    by (simp_all add: env_fault_def env0_def)
  have e: "fst (fetch_track env_fault c1 q0 False True st0) = Inr (demo_LoadResult load_failed, False)"
    by (simp add: fetch_track_lazy_value l)
  have f: "provider_calls (snd (fetch_track env_fault c1 q0 False True st0)) = []"
    by (simp add: fetch_track_lazy_calls) (simp add: provider_calls_def st0_def)
  show ?thesis using a b c d e f by blast
qed

section \<open>Properties of autoplay\<close>

lemma autoplay_loop_exhausted:
  "1 \<le> tries \<Longrightarrow> (\<forall>i. n \<le> i \<and> int i < int n + tries - 1 \<longrightarrow> \<not> acceptable env (choice i))
   \<Longrightarrow> fst (autoplay_loop env choice n tries st) = Inl (DatabaseError ''No valid entry found'')
       \<and> fst (snd (autoplay_loop env choice n tries st)) = n + nat (tries - 1)"
proof (induction env choice n tries st rule: autoplay_loop.induct)
  case (1 env choice n tries st)
  show ?case
  proof (cases "tries - 1 \<le> 0")
    case True
    with "1.prems" show ?thesis by (subst (1 2) autoplay_loop.simps) simp
  next
    case False
    then have bad: "\<not> acceptable env (choice n)" using "1.prems"(2) by simp
    have rest: "1 \<le> tries - 1"
      "\<forall>i. Suc n \<le> i \<and> int i < int (Suc n) + (tries - 1) - 1 \<longrightarrow> \<not> acceptable env (choice i)"
      using False "1.prems"(2) by auto
    have arith: "Suc n + nat (tries - 1 - 1) = n + nat (tries - 1)" using False by simp
    show ?thesis
      using False bad "1.IH"(1)[OF False refl refl _ rest] "1.IH"(2)[OF False refl refl _ _ rest]
        "1.IH"(3)[OF False refl refl _ _ _ rest] arith
      by (subst (1 2) autoplay_loop.simps) (auto simp add: acceptable_def Let_def)
  qed
qed

lemma autoplay_loop_selects:
  "n \<le> k \<Longrightarrow> int k < int n + tries - 1 \<Longrightarrow> acceptable env (choice k)
   \<Longrightarrow> (\<forall>i. n \<le> i \<and> i < k \<longrightarrow> \<not> acceptable env (choice i))
   \<Longrightarrow> fst (autoplay_loop env choice n tries st) = Inr (choice k)
       \<and> fst (snd (autoplay_loop env choice n tries st)) = Suc k"
proof (induction env choice n tries st rule: autoplay_loop.induct)
  case (1 env choice n tries st)
  have pos: "\<not> tries - 1 \<le> 0" using "1.prems"(1,2) by simp
  show ?case
  proof (cases "n = k")
    case True
    with pos "1.prems"(3) show ?thesis
      by (subst (1 2) autoplay_loop.simps) (auto simp add: acceptable_def Let_def)
  next
    case False
    then have bad: "\<not> acceptable env (choice n)" using "1.prems"(1,4) by simp
    have rest: "Suc n \<le> k" "int k < int (Suc n) + (tries - 1) - 1" "acceptable env (choice k)"
      "\<forall>i. Suc n \<le> i \<and> i < k \<longrightarrow> \<not> acceptable env (choice i)"
      using False "1.prems" by auto
    show ?thesis
      using pos bad "1.IH"(1)[OF pos refl refl _ rest] "1.IH"(2)[OF pos refl refl _ _ rest]
        "1.IH"(3)[OF pos refl refl _ _ _ rest]
      by (subst (1 2) autoplay_loop.simps) (auto simp add: acceptable_def Let_def)
  qed
qed

lemma autoplay_loop_draws:
  "1 \<le> tries \<Longrightarrow> fst (snd (autoplay_loop env choice n tries st)) \<le> n + nat (tries - 1)"
proof (induction env choice n tries st rule: autoplay_loop.induct)
  case (1 env choice n tries st)
  show ?case
  proof (cases "tries - 1 \<le> 0")
    case True
    then show ?thesis by (subst autoplay_loop.simps) simp
  next
    case False
    have rest: "1 \<le> tries - 1" using False by simp
    have arith: "Suc n + nat (tries - 1 - 1) = n + nat (tries - 1)" using False by simp
    show ?thesis
      using False "1.IH"(1)[OF False refl refl _ rest] "1.IH"(2)[OF False refl refl _ _ rest]
        "1.IH"(3)[OF False refl refl _ _ _ rest] arith
      by (subst autoplay_loop.simps) (auto simp add: Let_def)
  qed
qed

lemma autoplay_loop_accepts:
  "fst (autoplay_loop env choice n tries st) = Inr t \<Longrightarrow> acceptable env t"
proof (induction env choice n tries st rule: autoplay_loop.induct)
  case (1 env choice n tries st)
  show ?case
  proof (cases "tries - 1 \<le> 0")
    case True
    with "1.prems" show ?thesis by (subst (asm) autoplay_loop.simps) simp
  next
    case False
    show ?thesis
      using False "1.prems" "1.IH"(1)[OF False refl refl] "1.IH"(2)[OF False refl refl]
        "1.IH"(3)[OF False refl refl]
      by (subst (asm) autoplay_loop.simps)
        (auto simp add: acceptable_def Let_def split: if_splits)
  qed
qed

lemma autoplay_many:
  assumes "1 < length candidates"
  shows "fst (autoplay env choice candidates st) =
           map_sum id Some (fst (autoplay_loop env choice 0 (int (length candidates)) st))"
    and "fst (snd (autoplay env choice candidates st)) =
           fst (snd (autoplay_loop env choice 0 (int (length candidates)) st))"
  using assms
  by (cases candidates; cases "autoplay_loop env choice 0 (int (length candidates)) st";
      auto simp add: autoplay_def split: sum.splits)+

text \<open>
  Claim C8, as amended: with \<open>N > 1\<close> candidates the retry loop of \<^verbatim>\<open>autoplay\<close>
  starts its counter at \<open>N\<close>, decrements it before each draw and raises
  \<^verbatim>\<open>DatabaseError\<close> when it reaches zero, so it draws at most \<open>N - 1\<close> times. A draw is
  skipped when the candidate's query is not valid, when it is a local track whose file is
  missing, or when the content filter rejects it. When none of the \<open>N - 1\<close> draws is
  acceptable the error is raised, after \<open>N - 1\<close> draws and \<open>N\<close> decrements; when the
  \<open>k\<close>-th draw (counted from 0, \<open>k < N - 1\<close>) is the first acceptable one, that track
  is chosen after \<open>k + 1\<close> draws; and a chosen track is always acceptable. For a pool of
  5 this is 4 draws. The draws of \<^verbatim>\<open>random.choice\<close> are the arbitrary sequence
  \<open>choice\<close>: the statement holds for every sequence of draws.
\<close>

theorem autoplay_retry_bound:
  assumes "1 < length candidates"
  shows "fst (snd (autoplay env choice candidates st)) \<le> length candidates - 1
    \<and> ((\<forall>i. i < length candidates - 1 \<longrightarrow> \<not> acceptable env (choice i)) \<longrightarrow>
         fst (autoplay env choice candidates st) = Inl (DatabaseError ''No valid entry found'')
         \<and> fst (snd (autoplay env choice candidates st)) = length candidates - 1)
    \<and> (k < length candidates - 1 \<and> acceptable env (choice k)
         \<and> (\<forall>i. i < k \<longrightarrow> \<not> acceptable env (choice i)) \<longrightarrow>
         fst (autoplay env choice candidates st) = Inr (Some (choice k))
         \<and> fst (snd (autoplay env choice candidates st)) = Suc k)
    \<and> (\<forall>t. fst (autoplay env choice candidates st) = Inr (Some t) \<longrightarrow> acceptable env t)"
proof -
  let ?N = "length candidates"
  have one: "1 \<le> int ?N" using assms by simp
  have nat: "nat (int ?N - 1) = ?N - 1" by simp
  have a: "fst (snd (autoplay env choice candidates st)) \<le> ?N - 1"
    using autoplay_loop_draws[OF one, of env choice 0 st] autoplay_many(2)[OF assms, of env choice st]
    by (simp add: nat)
  have b: "(\<forall>i. i < ?N - 1 \<longrightarrow> \<not> acceptable env (choice i)) \<longrightarrow>
         fst (autoplay env choice candidates st) = Inl (DatabaseError ''No valid entry found'')
         \<and> fst (snd (autoplay env choice candidates st)) = ?N - 1"
  proof
    assume h: "\<forall>i. i < ?N - 1 \<longrightarrow> \<not> acceptable env (choice i)"
    then have "\<forall>i. 0 \<le> i \<and> int i < int 0 + int ?N - 1 \<longrightarrow> \<not> acceptable env (choice i)"
      by auto
    from autoplay_loop_exhausted[OF one this, of st] autoplay_many[OF assms, of env choice st]
    show "fst (autoplay env choice candidates st) = Inl (DatabaseError ''No valid entry found'')
         \<and> fst (snd (autoplay env choice candidates st)) = ?N - 1"
      by (simp add: nat)
  qed
  have c: "k < ?N - 1 \<and> acceptable env (choice k)
         \<and> (\<forall>i. i < k \<longrightarrow> \<not> acceptable env (choice i)) \<longrightarrow>
         fst (autoplay env choice candidates st) = Inr (Some (choice k))
         \<and> fst (snd (autoplay env choice candidates st)) = Suc k"
  proof
    assume h: "k < ?N - 1 \<and> acceptable env (choice k)
         \<and> (\<forall>i. i < k \<longrightarrow> \<not> acceptable env (choice i))"
    then have k: "0 \<le> k" "int k < int 0 + int ?N - 1" "acceptable env (choice k)"
      "\<forall>i. 0 \<le> i \<and> i < k \<longrightarrow> \<not> acceptable env (choice i)"
      by auto
    from autoplay_loop_selects[OF k, of st] autoplay_many[OF assms, of env choice st]
    show "fst (autoplay env choice candidates st) = Inr (Some (choice k))
         \<and> fst (snd (autoplay env choice candidates st)) = Suc k"
      by simp
  qed
  have d: "\<forall>t. fst (autoplay env choice candidates st) = Inr (Some t) \<longrightarrow> acceptable env t"
  proof (intro allI impI)
    fix t assume "fst (autoplay env choice candidates st) = Inr (Some t)"
    then have "fst (autoplay_loop env choice 0 (int ?N) st) = Inr t"
      using autoplay_many(1)[OF assms, of env choice st]
      by (cases "fst (autoplay_loop env choice 0 (int ?N) st)") auto
    then show "acceptable env t" by (rule autoplay_loop_accepts)
  qed
  show ?thesis using a b c d by blast
qed

theorem autoplay_retry_bound_witness:
  "1 < length pool5
   \<and> fst (autoplay env_local always_first pool5 st0) = Inl (DatabaseError ''No valid entry found'')
   \<and> fst (snd (autoplay env_local always_first pool5 st0)) = 4
   \<and> fst (autoplay env_local fourth_ok pool5 st0) = Inr (Some (Track ''ok'' ''x'' ''ok''))
   \<and> fst (snd (autoplay env_local fourth_ok pool5 st0)) = 4"
proof -
  have n: "1 < length pool5" and l: "length pool5 - 1 = 4" by (simp_all add: pool5_def)
  have bad: "\<not> acceptable env_local (Track ''a'' ''x'' ''a'')"
    by (simp add: acceptable_def env_local_def env0_def)
  have good: "acceptable env_local (Track ''ok'' ''x'' ''ok'')"
    by (simp add: acceptable_def env_local_def env0_def)
  have h1: "\<forall>i. i < length pool5 - 1 \<longrightarrow> \<not> acceptable env_local (always_first i)"
    using bad by (simp add: always_first_def)
  have h2: "3 < length pool5 - 1 \<and> acceptable env_local (fourth_ok 3)
      \<and> (\<forall>i. i < 3 \<longrightarrow> \<not> acceptable env_local (fourth_ok i))"
    using bad good l by (simp add: fourth_ok_def)
  from autoplay_retry_bound[OF n, of env_local always_first st0 0] h1 l
  have a: "fst (autoplay env_local always_first pool5 st0) = Inl (DatabaseError ''No valid entry found'')
     \<and> fst (snd (autoplay env_local always_first pool5 st0)) = 4"
    by simp
  from autoplay_retry_bound[OF n, of env_local fourth_ok st0 3] h2
  have b: "fst (autoplay env_local fourth_ok pool5 st0) = Inr (Some (fourth_ok 3))
     \<and> fst (snd (autoplay env_local fourth_ok pool5 st0)) = Suc 3"
    by blast
  show ?thesis using n a b by (simp add: fourth_ok_def)
qed

text \<open>
  The claim as stated fails: a fifth draw is never made for a pool of 5. When the first
  four draws are not acceptable the error is raised, although the fifth draw would have
  returned the one valid candidate; a pool of 2 is drawn once and never re-drawn.
\<close>

theorem fifth_draw_never_made:
  "length pool5 = 5
   \<and> \<not> acceptable env_local (Track ''a'' ''x'' ''a'')
   \<and> acceptable env_local (fifth_ok 4)
   \<and> fst (autoplay env_local fifth_ok pool5 st0) = Inl (DatabaseError ''No valid entry found'')
   \<and> fst (snd (autoplay env_local fifth_ok pool5 st0)) = 4
   \<and> length pool2 = 2
   \<and> acceptable env_local (second_ok 1)
   \<and> fst (autoplay env_local second_ok pool2 st0) = Inl (DatabaseError ''No valid entry found'')
   \<and> fst (snd (autoplay env_local second_ok pool2 st0)) = 1"
proof -
  have n5: "1 < length pool5" and l5: "length pool5 = 5" by (simp_all add: pool5_def)
  have n2: "1 < length pool2" and l2: "length pool2 = 2" by (simp_all add: pool2_def)
  have bad: "\<not> acceptable env_local (Track ''a'' ''x'' ''a'')"
    by (simp add: acceptable_def env_local_def env0_def)
  have good: "acceptable env_local (Track ''ok'' ''x'' ''ok'')"
    by (simp add: acceptable_def env_local_def env0_def)
  have h5: "\<forall>i. 0 \<le> i \<and> int i < int 0 + int (length pool5) - 1
              \<longrightarrow> \<not> acceptable env_local (fifth_ok i)"
    using bad by (simp add: fifth_ok_def l5)
  have h2: "\<forall>i. 0 \<le> i \<and> int i < int 0 + int (length pool2) - 1
              \<longrightarrow> \<not> acceptable env_local (second_ok i)"
    using bad by (simp add: second_ok_def l2)
  have one5: "1 \<le> int (length pool5)" and one2: "1 \<le> int (length pool2)"
    by (simp_all add: l5 l2)
  from autoplay_loop_exhausted[OF one5 h5, of st0] autoplay_many[OF n5, of env_local fifth_ok st0]
  have a: "fst (autoplay env_local fifth_ok pool5 st0) = Inl (DatabaseError ''No valid entry found'')
      \<and> fst (snd (autoplay env_local fifth_ok pool5 st0)) = 4"
    by (simp add: l5)
  from autoplay_loop_exhausted[OF one2 h2, of st0] autoplay_many[OF n2, of env_local second_ok st0]
  have b: "fst (autoplay env_local second_ok pool2 st0) = Inl (DatabaseError ''No valid entry found'')
      \<and> fst (snd (autoplay env_local second_ok pool2 st0)) = 1"
    by (simp add: l2)
  have g5: "acceptable env_local (fifth_ok 4)" using good by (simp add: fifth_ok_def)
  have g2: "acceptable env_local (second_ok 1)" using good by (simp add: second_ok_def)
  show ?thesis using l5 l2 bad a b g5 g2 by blast
qed

section \<open>What the lookups and fetches add to the effect log\<close>

lemma grows_refl: "grows_by P st st"
  by (simp add: grows_by_def)

lemma grows_trans: "grows_by P a b \<Longrightarrow> grows_by P b c \<Longrightarrow> grows_by P a c"
  by (auto simp add: grows_by_def)

lemma grows_emit: "P e \<Longrightarrow> grows_by P st (emit e st)"
  by (simp add: grows_by_def)

lemma grows_emit_after: "grows_by P a b \<Longrightarrow> P e \<Longrightarrow> grows_by P a (emit e b)"
  by (auto simp add: grows_by_def)

lemma grows_append_task: "grows_by P st (append_task c ev t i st)"
  by (simp add: grows_by_def)

lemma grows_append_task_after: "grows_by P a b \<Longrightarrow> grows_by P a (append_task c ev t i b)"
  by (simp add: grows_by_def)

lemma grows_cache_read: "grows_by background st (snd (cache_read r st))"
  by (simp add: grows_by_def cache_read_effects split: sum.splits)

lemma grows_fetch_track_cache: "grows_by background st (snd (fetch_track_cache env c q st))"
  by (simp add: grows_by_def fetch_track_cache_effects split: sum.splits)

lemma grows_finish:
  "grows_by background st (snd (fetch_track_finish env c ce rq r called st))"
proof -
  obtain new where n: "effects (snd (fetch_track_finish env c ce rq r called st)) = effects st @ new"
    and d: "\<forall>e \<in> set new. \<exists>x. e = DebugExcLog x"
    using finish_effects[of env c ce rq r called st] by blast
  from d have "list_all background new" by (auto simp add: list_all_iff)
  with n show ?thesis by (auto simp add: grows_by_def)
qed

lemma grows_fetch_track_forced:
  "grows_by background st (snd (fetch_track env c qry True False st))"
proof -
  let ?rq = "process_input env (FromQuery qry)"
  let ?st2 = "emit (LoadTracks (q_str ?rq)) st"
  have a: "grows_by background st ?st2" by (simp add: grows_emit)
  have c: "\<And>r called. grows_by background st
     (snd (fetch_track_finish env c (is_subset set_lavalink (cache_level env)) ?rq r called ?st2))"
    using grows_trans[OF a grows_finish] by simp
  show ?thesis
    using a c by (simp add: fetch_track_forced Let_def split: sum.splits)
qed

lemma grows_fetch_track:
  "grows_by background st (snd (fetch_track env c qry forced lazy st))"
proof -
  let ?rq = "process_input env (FromQuery qry)"
  let ?ce = "is_subset set_lavalink (cache_level env)"
  let ?p = "(if ?ce \<and> \<not> forced \<and> \<not> is_local ?rq
              then fetch_track_cache env c (q_str ?rq) st else (PNone, st))"
  obtain val st1 where p: "?p = (val, st1)" by (cases ?p)
  have "st1 = snd ?p" using p by simp
  then have p1: "grows_by background st st1"
    by (simp add: grows_fetch_track_cache grows_refl)
  have fin: "\<And>r called s. grows_by background st1 s \<Longrightarrow>
     grows_by background st (snd (fetch_track_finish env c ?ce ?rq r called s))"
  proof -
    fix r called s
    assume "grows_by background st1 s"
    with p1 have "grows_by background st s" by (rule grows_trans)
    then show "grows_by background st (snd (fetch_track_finish env c ?ce ?rq r called s))"
      using grows_finish by (rule grows_trans)
  qed
  show ?thesis
  proof (cases lazy)
    case True
    with p fin[OF grows_refl] show ?thesis
      by (subst fetch_track.simps) (simp add: Let_def)
  next
    case nl: False
    show ?thesis
    proof (cases "truthy val \<and> \<not> forced")
      case tv: True
      show ?thesis
      proof (cases "has_error (LoadResult env (cached_data val (q_str ?rq)))")
        case he: True
        obtain r st2 where rec: "fetch_track env c ?rq True False st1 = (r, st2)"
          by (cases "fetch_track env c ?rq True False st1")
        have g12: "grows_by background st1 st2"
          using grows_fetch_track_forced[of st1 env c ?rq] rec by simp
        with p1 have p2: "grows_by background st st2"
          by (rule grows_trans)
        from nl tv he p rec p2 fin[OF g12] show ?thesis
          by (subst fetch_track.simps)
            (auto simp add: Let_def split: sum.splits prod.splits)
      next
        case he: False
        from nl tv he p fin[OF grows_refl] show ?thesis
          by (subst fetch_track.simps) (auto simp add: Let_def)
      qed
    next
      case nv: False
      have e2: "grows_by background st1 (emit (LoadTracks (q_str ?rq)) st1)"
        by (simp add: grows_emit)
      with p1 have p2: "grows_by background st (emit (LoadTracks (q_str ?rq)) st1)"
        by (rule grows_trans)
      from nl nv p p2 fin[OF e2] show ?thesis
        by (subst fetch_track.simps) (auto simp add: Let_def split: sum.splits)
    qed
  qed
qed

lemma grows_youtube_lookup: "grows_by background st (snd (youtube_lookup env c ti lvl st))"
  by (simp add: grows_by_def youtube_lookup_def Let_def split_beta cache_read_effects
      first_time_query_effects split: sum.splits)

lemma grows_abort_batch:
  "grows_by background a b \<Longrightarrow> grows_by background a (snd (abort_batch notifier msg b))"
  by (auto simp add: grows_by_def abort_batch_def notify_def)

lemma grows_enqueue_fetch: "grows_by background st (snd (enqueue_fetch env c notifier ti st))"
proof -
  obtain val st1 where yl: "youtube_lookup env c ti (cache_level env) st = (val, st1)"
    by (cases "youtube_lookup env c ti (cache_level env) st")
  have g1: "grows_by background st st1"
    using grows_youtube_lookup[of st env c ti "cache_level env"] yl by simp
  obtain r st2 where ft:
    "fetch_track env c (process_input env (FromValue val)) False False st1 = (r, st2)"
    by (cases "fetch_track env c (process_input env (FromValue val)) False False st1")
  have "grows_by background st1 st2"
    using grows_fetch_track[of st1 env c "process_input env (FromValue val)" False False] ft
    by simp
  with g1 have g2: "grows_by background st st2" by (rule grows_trans)
  show ?thesis
    using g1 g2 yl ft grows_abort_batch[OF g2]
    by (auto simp add: enqueue_fetch_def split: sum.splits prod.splits)
qed

lemma background_notifications:
  "grows_by background st st' \<Longrightarrow> notifications st' = notifications st"
proof -
  have "\<And>new. list_all background new \<Longrightarrow>
      concat (map (\<lambda>e. case e of NotifyUser cur tot k \<Rightarrow> [(cur, tot, k)] | _ \<Rightarrow> []) new) = []"
  proof -
    fix new show "list_all background new \<Longrightarrow>
      concat (map (\<lambda>e. case e of NotifyUser cur tot k \<Rightarrow> [(cur, tot, k)] | _ \<Rightarrow> []) new) = []"
      by (induction new) (auto split: effect.splits)
  qed
  then show "grows_by background st st' \<Longrightarrow> notifications st' = notifications st"
    by (auto simp add: grows_by_def notifications_def)
qed

lemma background_rejected:
  "grows_by background st st' \<Longrightarrow> rejected env st' = rejected env st"
proof -
  have "\<And>new. list_all background new \<Longrightarrow>
      \<not> list_ex (\<lambda>e. case e of IsAllowed s \<Rightarrow> \<not> is_allowed env s | _ \<Rightarrow> False) new"
  proof -
    fix new show "list_all background new \<Longrightarrow>
      \<not> list_ex (\<lambda>e. case e of IsAllowed s \<Rightarrow> \<not> is_allowed env s | _ \<Rightarrow> False) new"
      by (induction new) (auto split: effect.splits)
  qed
  then show "grows_by background st st' \<Longrightarrow> rejected env st' = rejected env st"
    by (auto simp add: grows_by_def rejected_def)
qed

text \<open>
  What \<^verbatim>\<open>spotify_enqueue\<close> fetches for a track when neither cache holds anything: the
  tracks of the provider's result, or of the \<^verbatim>\<open>LOAD_FAILED\<close> default when there is none.
\<close>

lemma youtube_lookup_uncached:
  assumes "youtube_fetch_one env ti = Inr (PNone, upd)"
  shows "fst (youtube_lookup env c ti lvl st) = youtube_get_call env ti"
  using assms
  by (simp add: youtube_lookup_def Let_def split_beta cache_read_def first_time_query_value)

lemma enqueue_fetch_uncached:
  assumes yt: "youtube_fetch_one env ti = Inr (PNone, upd)"
    and url: "truthy (youtube_get_call env ti)"
    and miss: "no_cached_value env (process_input env (FromValue (youtube_get_call env ti))) False"
    and prov: "load_tracks env (q_str (process_input env
                 (FromQuery (process_input env (FromValue (youtube_get_call env ti)))))) = Inr r"
  shows "fst (enqueue_fetch env c notifier ti st) =
           Objects (tracks (case r of None \<Rightarrow> LoadResult env load_failed | Some x \<Rightarrow> x))"
proof -
  let ?val = "youtube_get_call env ti"
  let ?q = "process_input env (FromValue ?val)"
  obtain v st1 where yl: "youtube_lookup env c ti (cache_level env) st = (v, st1)"
    by (cases "youtube_lookup env c ti (cache_level env) st")
  have v: "v = ?val"
    using youtube_lookup_uncached[OF yt, of c "cache_level env" st] yl by simp
  have "fst (fetch_track env c ?q True False st1) =
          Inr (case r of None \<Rightarrow> LoadResult env load_failed | Some x \<Rightarrow> x, True)"
    using prov by (simp add: fetch_track_forced Let_def finish_value)
  then have "fst (fetch_track env c ?q False False st1) =
          Inr (case r of None \<Rightarrow> LoadResult env load_failed | Some x \<Rightarrow> x, True)"
    using fetch_track_miss(1)[OF miss, of c st1 st1] by simp
  then obtain st2 where "fetch_track env c ?q False False st1 =
          (Inr (case r of None \<Rightarrow> LoadResult env load_failed | Some x \<Rightarrow> x, True), st2)"
    by (cases "fetch_track env c ?q False False st1") auto
  with yl v url show ?thesis
    by (simp add: enqueue_fetch_def)
qed

section \<open>Progress notifications\<close>

lemma notifications_emit:
  "notifications (emit e st) =
     notifications st @ (case e of NotifyUser cur tot k \<Rightarrow> [(cur, tot, k)] | _ \<Rightarrow> [])"
  by (simp add: notifications_def)

lemma notifications_append_task: "notifications (append_task c ev t i st) = notifications st"
  by (simp add: notifications_def)

lemma notifications_enqueue_fetch:
  "notifications (snd (enqueue_fetch env c notifier ti st)) = notifications st"
  using grows_enqueue_fetch by (rule background_notifications)

lemma notifications_youtube_lookup:
  "notifications (snd (youtube_lookup env c ti lvl st)) = notifications st"
  using grows_youtube_lookup by (rule background_notifications)

lemma notifications_enqueue_track:
  "notifications (snd (enqueue_track env enqueue t es st)) = notifications st"
  by (simp add: enqueue_track_def add_track_def Let_def split_beta notifications_emit)

lemma env_two_fields:
  "spotify_fetch_tracks env_two query_type u = Inr two_tracks"
  "get_spotify_track_info env_two t = (PNone, t, PNone, PNone, PNone, PNone, PNone)"
  "youtube_fetch_one env_two ti = Inr (PNone, PNone)"
  "lavalink_fetch_one env_two q = Inr (PNone, PNone)"
  "youtube_get_call env_two ti = PStr ''u''"
  "load_tracks env_two q = Inr (Some (demo_LoadResult good_raw))"
  "process_input env_two = demo_process_input"
  "is_allowed env_two s = True"
  "maxlength env_two = 0"
  "player_play env_two p = p"
  "cache_level env_two = [SpotifyScope, YouTubeScope, LavalinkScope]"
  by (simp_all add: env_two_def env_play_def env_found_def env0_def)

lemma enqueue_fetch_two:
  "fst (enqueue_fetch env_two c True ti st) = Objects [Track ''t'' ''a'' ''u'']"
proof -
  have m: "no_cached_value env_two (process_input env_two (FromValue (youtube_get_call env_two ti))) False"
    by (simp add: no_cached_value_def env_two_fields)
  have "fst (enqueue_fetch env_two c True ti st) =
      Objects (tracks (case Some (demo_LoadResult good_raw) of
                 None \<Rightarrow> LoadResult env_two load_failed | Some x \<Rightarrow> x))"
    by (rule enqueue_fetch_uncached[where upd=PNone])
      (simp_all add: m, simp_all add: env_two_fields)
  then show ?thesis by (simp add: good_raw_def)
qed

lemma enqueue_two_tracks:
  "notifications (snd (snd (spotify_enqueue env_two c1 ''playlist'' ''x'' True pl0 True st0)))
     = [(0, 2, ''lavalink'')]"
  "fst (spotify_enqueue env_two c1 ''playlist'' ''x'' True pl0 True st0)
     = Inr [Track ''t'' ''a'' ''u'', Track ''t'' ''a'' ''u'']"
  by (simp_all add: spotify_enqueue_def spotify_enqueue_try_def env_two_fields two_tracks_def
      Let_def case_prod_beta enqueue_fetch_two notify_def enqueue_track_def add_track_def
      notifications_emit notifications_append_task notifications_enqueue_fetch pl0_def
      is_subset_def set_spotify_def nothing_found_def)
    (simp_all add: notifications_def st0_def)

lemma first_time_two_tracks:
  "notifications (snd (spotify_first_time_query env_two c1 ''playlist'' ''x'' True False
       (cache_level env_two) st0)) = [(2, 2, ''youtube'')]"
  by (simp add: spotify_first_time_query_def env_two_fields two_tracks_def Let_def
      case_prod_beta notifications_emit notifications_append_task notifications_youtube_lookup
      is_subset_def set_spotify_def)
    (simp add: notifications_def st0_def)

text \<open>
  Claim C9, evaluated on the code. A Spotify listing of two tracks is resolved with every
  track found. \<^verbatim>\<open>spotify_enqueue\<close> enqueues both tracks and notifies once, with
  \<^verbatim>\<open>current=0\<close>, while it processes the first track: its \<^verbatim>\<open>track_count\<close> is the index of
  \<^verbatim>\<open>enumerate\<close>, which starts at 0 and never equals \<^verbatim>\<open>total_tracks\<close>, so there is no
  notification on the final track. \<^verbatim>\<open>_spotify_first_time_query\<close> on the same listing
  counts from 1 and notifies with \<^verbatim>\<open>current=2\<close> on the second, final track.
\<close>

theorem spotify_enqueue_skips_final_notification:
  "fst (spotify_enqueue env_two c1 ''playlist'' ''x'' True pl0 True st0)
     = Inr [Track ''t'' ''a'' ''u'', Track ''t'' ''a'' ''u'']
   \<and> notifications (snd (snd (spotify_enqueue env_two c1 ''playlist'' ''x'' True pl0 True st0)))
     = [(0, 2, ''lavalink'')]
   \<and> notifications (snd (spotify_first_time_query env_two c1 ''playlist'' ''x'' True False
       (cache_level env_two) st0)) = [(2, 2, ''youtube'')]"
  using enqueue_two_tracks first_time_two_tracks by blast

section \<open>The backoff policy of the enqueue loop\<close>

lemma enqueue_loop_failure_step:
  assumes "fst (enqueue_fetch env c True (fst (snd (get_spotify_track_info env t))) st) = Objects []"
    and "consecutive_fails es < 10"
  shows "\<exists>st2. enqueue_loop env c enqueue True total_tracks i (t # rest) es st =
           enqueue_loop env c enqueue True total_tracks (Suc i) rest
             (es\<lparr>database_entries := database_entries es @ [database_entry env (get_spotify_track_info env t)],
                 consecutive_fails := consecutive_fails es + 1\<rparr>) st2"
  using assms
  by (cases "i mod 2 = 0 \<or> i = total_tracks")
    (auto simp add: Let_def case_prod_beta notify_def)

lemma enqueue_loop_abort_step:
  assumes "fst (enqueue_fetch env c True (fst (snd (get_spotify_track_info env t))) st) = Objects objs"
    and "10 \<le> consecutive_fails es"
  shows "\<exists>st2. enqueue_loop env c enqueue True total_tracks i (t # rest) es st =
           (None,
            es\<lparr>database_entries := database_entries es @ [database_entry env (get_spotify_track_info env t)]\<rparr>,
            emit abort_notice st2)"
  using assms
  by (cases "i mod 2 = 0 \<or> i = total_tracks")
    (auto simp add: Let_def case_prod_beta notify_def abort_notice_def)

lemma enqueue_loop_backoff:
  assumes "\<forall>f \<in> set fails. \<forall>st.
             fst (enqueue_fetch env c True (fst (snd (get_spotify_track_info env f))) st) = Objects []"
    and "length fails + consecutive_fails es = 10"
    and "\<forall>st. \<exists>objs.
           fst (enqueue_fetch env c True (fst (snd (get_spotify_track_info env t))) st) = Objects objs"
  shows "case enqueue_loop env c enqueue True total_tracks i (fails @ t # rest) es st of
           (r, es', st') \<Rightarrow>
             r = None \<and> track_list es' = track_list es \<and> enqueued_tracks es' = enqueued_tracks es
             \<and> player es' = player es \<and> has_not_allowed es' = has_not_allowed es
             \<and> length (database_entries es') = length (database_entries es) + length fails + 1
             \<and> last (effects st') = abort_notice"
  using assms(1,2)
proof (induction fails arbitrary: es st i)
  case Nil
  then have ten: "10 \<le> consecutive_fails es" by simp
  from assms(3) obtain objs where
    "fst (enqueue_fetch env c True (fst (snd (get_spotify_track_info env t))) st) = Objects objs"
    by blast
  from enqueue_loop_abort_step[OF this ten, of enqueue total_tracks i rest]
  show ?case by auto
next
  case (Cons f fails)
  have lt: "consecutive_fails es < 10" using Cons.prems(2) by simp
  have ff: "fst (enqueue_fetch env c True (fst (snd (get_spotify_track_info env f))) st) = Objects []"
    using Cons.prems(1) by simp
  let ?es1 = "es\<lparr>database_entries := database_entries es @ [database_entry env (get_spotify_track_info env f)],
                 consecutive_fails := consecutive_fails es + 1\<rparr>"
  from enqueue_loop_failure_step[OF ff lt, of enqueue total_tracks i "fails @ t # rest"]
  obtain st2 where step:
    "enqueue_loop env c enqueue True total_tracks i ((f # fails) @ t # rest) es st =
       enqueue_loop env c enqueue True total_tracks (Suc i) (fails @ t # rest) ?es1 st2"
    by auto
  have "case enqueue_loop env c enqueue True total_tracks (Suc i) (fails @ t # rest) ?es1 st2 of
           (r, es', st') \<Rightarrow>
             r = None \<and> track_list es' = track_list ?es1 \<and> enqueued_tracks es' = enqueued_tracks ?es1
             \<and> player es' = player ?es1 \<and> has_not_allowed es' = has_not_allowed ?es1
             \<and> length (database_entries es') = length (database_entries ?es1) + length fails + 1
             \<and> last (effects st') = abort_notice"
    using Cons.prems by (intro Cons.IH) simp_all
  then show ?case unfolding step by (auto split: prod.splits)
qed

lemma enqueue_loop_reset:
  assumes "fst (enqueue_fetch env c True (fst (snd (get_spotify_track_info env t))) st) = Objects (x # xs)"
    and "consecutive_fails es < 10"
  shows "consecutive_fails (fst (snd (enqueue_loop env c enqueue True total_tracks i [t] es st))) = 0"
  using assms
  by (cases "i mod 2 = 0 \<or> i = total_tracks")
    (auto simp add: Let_def case_prod_beta notify_def enqueue_track_def add_track_def)

text \<open>
  Claim C4: in the loop of \<^verbatim>\<open>spotify_enqueue\<close> (with a notifier), a run of failures
  (iterations whose fetched track list is empty) that brings \<^verbatim>\<open>consecutive_fails\<close> to 10
  makes the iteration of the next track, once its fetch has returned, issue the notice
  \<^verbatim>\<open>Failing to get tracks, skipping remaining.\<close> and leave the loop: the result list, the
  count of enqueued tracks and the player are as they were at the start of the run, and
  of the tracks after the run only that next one was looked at. An iteration below the
  limit that fetches a non-empty track list sets the counter to zero, and one that
  fetches an empty list adds one to it.
\<close>

theorem ten_consecutive_failures_abort:
  "((\<forall>f \<in> set fails. \<forall>st.
        fst (enqueue_fetch env c True (fst (snd (get_spotify_track_info env f))) st) = Objects [])
     \<and> length fails + consecutive_fails es = 10
     \<and> (\<forall>st. \<exists>objs.
           fst (enqueue_fetch env c True (fst (snd (get_spotify_track_info env t))) st) = Objects objs)
     \<longrightarrow> (case enqueue_loop env c enqueue True total_tracks i (fails @ t # rest) es st of
           (r, es', st') \<Rightarrow>
             r = None \<and> track_list es' = track_list es \<and> enqueued_tracks es' = enqueued_tracks es
             \<and> player es' = player es \<and> has_not_allowed es' = has_not_allowed es
             \<and> length (database_entries es') = length (database_entries es) + length fails + 1
             \<and> last (effects st') = abort_notice))
   \<and> (fst (enqueue_fetch env c True (fst (snd (get_spotify_track_info env t))) st) = Objects (x # xs)
        \<and> consecutive_fails es < 10
      \<longrightarrow> consecutive_fails
            (fst (snd (enqueue_loop env c enqueue True total_tracks i [t] es st))) = 0)
   \<and> (fst (enqueue_fetch env c True (fst (snd (get_spotify_track_info env t))) st) = Objects []
        \<and> consecutive_fails es < 10
      \<longrightarrow> consecutive_fails
            (fst (snd (enqueue_loop env c enqueue True total_tracks i [t] es st)))
            = consecutive_fails es + 1)"
proof (intro conjI impI)
  assume h: "(\<forall>f \<in> set fails. \<forall>st.
        fst (enqueue_fetch env c True (fst (snd (get_spotify_track_info env f))) st) = Objects [])
     \<and> length fails + consecutive_fails es = 10
     \<and> (\<forall>st. \<exists>objs.
           fst (enqueue_fetch env c True (fst (snd (get_spotify_track_info env t))) st) = Objects objs)"
  from h have h1: "\<forall>f \<in> set fails. \<forall>st.
        fst (enqueue_fetch env c True (fst (snd (get_spotify_track_info env f))) st) = Objects []"
    by (rule conjunct1)
  from h have h2: "length fails + consecutive_fails es = 10"
    by (rule conjunct2[THEN conjunct1])
  from h have h3: "\<forall>st. \<exists>objs.
           fst (enqueue_fetch env c True (fst (snd (get_spotify_track_info env t))) st) = Objects objs"
    by (rule conjunct2[THEN conjunct2])
  show "case enqueue_loop env c enqueue True total_tracks i (fails @ t # rest) es st of
           (r, es', st') \<Rightarrow>
             r = None \<and> track_list es' = track_list es \<and> enqueued_tracks es' = enqueued_tracks es
             \<and> player es' = player es \<and> has_not_allowed es' = has_not_allowed es
             \<and> length (database_entries es') = length (database_entries es) + length fails + 1
             \<and> last (effects st') = abort_notice"
    by (rule enqueue_loop_backoff[OF h1 h2 h3])
next
  assume h: "fst (enqueue_fetch env c True (fst (snd (get_spotify_track_info env t))) st) = Objects (x # xs)
        \<and> consecutive_fails es < 10"
  show "consecutive_fails
            (fst (snd (enqueue_loop env c enqueue True total_tracks i [t] es st))) = 0"
    by (rule enqueue_loop_reset[OF h[THEN conjunct1] h[THEN conjunct2]])
next
  assume h: "fst (enqueue_fetch env c True (fst (snd (get_spotify_track_info env t))) st) = Objects []
        \<and> consecutive_fails es < 10"
  from enqueue_loop_failure_step[OF h[THEN conjunct1] h[THEN conjunct2], of enqueue total_tracks i "[]"]
  show "consecutive_fails
            (fst (snd (enqueue_loop env c enqueue True total_tracks i [t] es st)))
            = consecutive_fails es + 1"
    by auto
qed

lemma env_empty_fields:
  "get_spotify_track_info env_empty t = (PNone, t, PNone, PNone, PNone, PNone, PNone)"
  "youtube_fetch_one env_empty ti = Inr (PNone, PNone)"
  "lavalink_fetch_one env_empty q = Inr (PNone, PNone)"
  "youtube_get_call env_empty ti = PStr ''u''"
  "load_tracks env_empty q = Inr None"
  "process_input env_empty = demo_process_input"
  "LoadResult env_empty = demo_LoadResult"
  by (simp_all add: env_empty_def env0_def)

lemma enqueue_fetch_empty:
  "fst (enqueue_fetch env_empty c True ti st) = Objects []"
proof -
  have m: "no_cached_value env_empty
             (process_input env_empty (FromValue (youtube_get_call env_empty ti))) False"
    by (simp add: no_cached_value_def env_empty_fields)
  have "fst (enqueue_fetch env_empty c True ti st) =
      Objects (tracks (case None of
                 None \<Rightarrow> LoadResult env_empty load_failed | Some x \<Rightarrow> x))"
    by (rule enqueue_fetch_uncached[where upd=PNone])
      (simp_all add: m, simp_all add: env_empty_fields)
  then show ?thesis by (simp add: env_empty_fields load_failed_def)
qed

theorem ten_consecutive_failures_abort_witness:
  "case enqueue_loop env_empty c1 True True 11 0 (replicate 10 song @ [song]) (es0 pl0) st0 of
     (r, es', st') \<Rightarrow>
       r = None \<and> track_list es' = [] \<and> enqueued_tracks es' = 0 \<and> queue (player es') = []
       \<and> length (database_entries es') = 11 \<and> last (effects st') = abort_notice
       \<and> consecutive_fails (fst (snd (enqueue_loop env_two c1 True True 2 0 [song]
             ((es0 pl0)\<lparr>consecutive_fails := 3\<rparr>) st0))) = 0
       \<and> consecutive_fails (fst (snd (enqueue_loop env_empty c1 True True 2 0 [song]
             ((es0 pl0)\<lparr>consecutive_fails := 3\<rparr>) st0))) = 4"
proof -
  let ?es3 = "(es0 pl0)\<lparr>consecutive_fails := 3\<rparr>"
  have three: "consecutive_fails ?es3 < 10" "consecutive_fails ?es3 + 1 = 4" by simp_all
  note reset = ten_consecutive_failures_abort[where env=env_two and c=c1 and t=song and st=st0
      and x="Track ''t'' ''a'' ''u''" and xs="[]" and es="?es3" and enqueue=True
      and total_tracks=2 and i=0 and fails="[]" and rest="[]"]
  have r: "consecutive_fails (fst (snd (enqueue_loop env_two c1 True True 2 0 [song] ?es3 st0))) = 0"
    by (rule reset[THEN conjunct2, THEN conjunct1, THEN mp])
      (simp add: enqueue_fetch_two)
  note incr = ten_consecutive_failures_abort[where env=env_empty and c=c1 and t=song and st=st0
      and x="Track ''t'' ''a'' ''u''" and xs="[]" and es="?es3" and enqueue=True
      and total_tracks=2 and i=0 and fails="[]" and rest="[]"]
  have "consecutive_fails (fst (snd (enqueue_loop env_empty c1 True True 2 0 [song] ?es3 st0)))
          = consecutive_fails ?es3 + 1"
    by (rule incr[THEN conjunct2, THEN conjunct2, THEN mp])
      (simp add: enqueue_fetch_empty)
  then have k: "consecutive_fails (fst (snd (enqueue_loop env_empty c1 True True 2 0 [song] ?es3 st0))) = 4"
    by simp
  have a: "\<forall>f \<in> set (replicate 10 song). \<forall>st.
        fst (enqueue_fetch env_empty c1 True (fst (snd (get_spotify_track_info env_empty f))) st)
          = Objects []"
    by (simp add: enqueue_fetch_empty)
  have b: "length (replicate 10 song) + consecutive_fails (es0 pl0) = 10"
    by (simp add: es0_def)
  have d: "\<forall>st. \<exists>objs.
        fst (enqueue_fetch env_empty c1 True (fst (snd (get_spotify_track_info env_empty song))) st)
          = Objects objs"
    by (simp add: enqueue_fetch_empty)
  have hyp: "(\<forall>f \<in> set (replicate 10 song). \<forall>st.
        fst (enqueue_fetch env_empty c1 True (fst (snd (get_spotify_track_info env_empty f))) st)
          = Objects [])
     \<and> length (replicate 10 song) + consecutive_fails (es0 pl0) = 10
     \<and> (\<forall>st. \<exists>objs.
        fst (enqueue_fetch env_empty c1 True (fst (snd (get_spotify_track_info env_empty song))) st)
          = Objects objs)"
    using a b d by (intro conjI)
  note t = ten_consecutive_failures_abort[where fails="replicate 10 song" and env=env_empty
      and c=c1 and es="es0 pl0" and t=song and enqueue=True and total_tracks=11 and i=0
      and rest="[]" and st=st0]
  from t[THEN conjunct1, THEN mp, OF hyp]
  have "case enqueue_loop env_empty c1 True True 11 0 (replicate 10 song @ [song]) (es0 pl0) st0 of
           (r, es', st') \<Rightarrow>
             r = None \<and> track_list es' = track_list (es0 pl0)
             \<and> enqueued_tracks es' = enqueued_tracks (es0 pl0)
             \<and> player es' = player (es0 pl0) \<and> has_not_allowed es' = has_not_allowed (es0 pl0)
             \<and> length (database_entries es')
                 = length (database_entries (es0 pl0)) + length (replicate 10 song) + 1
             \<and> last (effects st') = abort_notice" .
  then show ?thesis
    using r k by (auto simp add: es0_def pl0_def split: prod.splits)
qed

section \<open>The content filter and the empty result\<close>

lemma rejected_emit:
  "rejected env (emit e st) =
     (rejected env st \<or> (case e of IsAllowed s \<Rightarrow> \<not> is_allowed env s | _ \<Rightarrow> False))"
  by (auto simp add: rejected_def)

lemma rejected_append_task: "rejected env (append_task c ev t i st) = rejected env st"
  by (simp add: rejected_def)

lemma rejected_enqueue_fetch:
  "rejected env (snd (enqueue_fetch env c notifier ti st)) = rejected env st"
  using grows_enqueue_fetch by (rule background_rejected)

lemma rejected_notify:
  "rejected env (snd (notify notifier (NotifyUser a b k) st)) = rejected env st"
  "rejected env (snd (notify notifier (UpdateEmbed m) st)) = rejected env st"
  by (simp_all add: notify_def rejected_emit)

lemma enqueue_track_flag:
  "has_not_allowed (fst (enqueue_track env enqueue t es st))
     = (has_not_allowed es \<or> \<not> is_allowed env (filter_text env t))"
  "rejected env (snd (enqueue_track env enqueue t es st))
     = (rejected env st \<or> \<not> is_allowed env (filter_text env t))"
  by (auto simp add: enqueue_track_def add_track_def Let_def split_beta rejected_emit)

lemma enqueue_track_rejects:
  "\<not> is_allowed env (filter_text env t)
   \<Longrightarrow> enqueue_track env enqueue t es st =
         (es\<lparr>has_not_allowed := True\<rparr>, emit (IsAllowed (filter_text env t)) st)"
  by (simp add: enqueue_track_def)

text \<open>
  The flag \<^verbatim>\<open>has_not_allowed\<close> says that the content filter rejected a track: the loop
  keeps the two equal.
\<close>

lemma enqueue_loop_flag:
  "has_not_allowed es = rejected env st
   \<Longrightarrow> has_not_allowed (fst (snd (enqueue_loop env c enqueue notifier total_tracks i listed es st)))
         = rejected env (snd (snd (enqueue_loop env c enqueue notifier total_tracks i listed es st)))"
proof (induction listed arbitrary: es st i)
  case Nil
  then show ?case by simp
next
  case (Cons t rest)
  let ?ti = "fst (snd (get_spotify_track_info env t))"
  let ?es1 = "es\<lparr>database_entries := database_entries es @ [database_entry env (get_spotify_track_info env t)]\<rparr>"
  obtain f st1 where ef: "enqueue_fetch env c notifier ?ti st = (f, st1)"
    by (cases "enqueue_fetch env c notifier ?ti st")
  have r1: "rejected env st1 = rejected env st"
    using rejected_enqueue_fetch[of env c notifier ?ti st] ef by simp
  show ?case
  proof (cases f)
    case (Raised e)
    with ef r1 Cons.prems show ?thesis by (simp add: Let_def)
  next
    case Break
    with ef r1 Cons.prems show ?thesis by (simp add: Let_def)
  next
    case (Objects objs)
    let ?n = "(if i mod 2 = 0 \<or> i = total_tracks
               then notify notifier (NotifyUser i total_tracks ''lavalink'') st1 else (None, st1))"
    obtain ne st2 where n: "?n = (ne, st2)" by (cases ?n)
    have "st2 = snd ?n" using n by simp
    then have r2: "rejected env st2 = rejected env st"
      using r1 by (simp add: rejected_notify)
    show ?thesis
    proof (cases ne)
      case (Some e)
      with ef Objects n r2 Cons.prems show ?thesis by (simp add: Let_def)
    next
      case None
      show ?thesis
      proof (cases "10 \<le> consecutive_fails es")
        case True
        obtain ae st3 where a: "notify notifier
            (UpdateEmbed ''Failing to get tracks, skipping remaining.'') st2 = (ae, st3)"
          by (cases "notify notifier (UpdateEmbed ''Failing to get tracks, skipping remaining.'') st2")
        have "rejected env st3 = rejected env st"
          using rejected_notify(2)[of env notifier "''Failing to get tracks, skipping remaining.''" st2]
            a r2 by simp
        with ef Objects n None True a Cons.prems show ?thesis
          by (cases ae) (simp_all add: Let_def)
      next
        case False
        show ?thesis
        proof (cases objs)
          case Nil
          have "has_not_allowed (?es1\<lparr>consecutive_fails := consecutive_fails ?es1 + 1\<rparr>)
                  = rejected env st2"
            using r2 Cons.prems by simp
          from Cons.IH[OF this, of "Suc i"] ef Objects n None False Nil show ?thesis
            by (simp add: Let_def)
        next
          case (Cons single_track others)
          obtain es2 st3 where et:
            "enqueue_track env enqueue single_track (?es1\<lparr>consecutive_fails := 0\<rparr>) st2 = (es2, st3)"
            by (cases "enqueue_track env enqueue single_track (?es1\<lparr>consecutive_fails := 0\<rparr>) st2")
          have "has_not_allowed es2 = rejected env st3"
            using enqueue_track_flag[of env enqueue single_track "?es1\<lparr>consecutive_fails := 0\<rparr>" st2]
              et r2 Cons.prems by simp
          from Cons.IH[OF this, of "Suc i"] ef Objects n None False Cons et show ?thesis
            by (simp add: Let_def)
        qed
      qed
    qed
  qed
qed

lemma spotify_enqueue_end:
  assumes "spotify_fetch_tracks env query_type u = Inr listed" and "listed \<noteq> []"
    and "enqueue_loop env c enqueue True (length listed) 0 listed (es0 pl)
           (emit (SpotifyFetchTracks query_type u) st) = (None, es, st2)"
  shows "fst (spotify_enqueue env c query_type u enqueue pl True st) =
           (if track_list es = [] \<and> \<not> has_not_allowed es then Inl nothing_found
            else Inr (track_list es))"
  using assms
  by (auto simp add: spotify_enqueue_def spotify_enqueue_try_def Let_def es0_def notify_def
      split: prod.splits sum.splits option.splits)

text \<open>
  Claim C7, as amended: in \<^verbatim>\<open>spotify_enqueue\<close> a track the content filter rejects is
  skipped without error and sets the flag \<^verbatim>\<open>has_not_allowed\<close>. For a listing that is not
  empty, resolved with a notifier, whose loop ends without an exception (by exhaustion or
  by one of its breaks): the flag is set if and only if the filter rejected a track of the
  batch; a fetch error (\<^verbatim>\<open>Nothing found\<close>) is raised if and only if no track was resolved
  and none was rejected; and when no track was resolved and one was rejected, the call
  returns the empty list without error. (An empty listing returns the empty list early,
  with a notice and no error, though no track was rejected.)
\<close>

theorem nothing_found_iff_none_filtered:
  assumes "spotify_fetch_tracks env query_type u = Inr listed" and "listed \<noteq> []"
    and "\<not> rejected env st"
    and "enqueue_loop env c enqueue True (length listed) 0 listed (es0 pl)
           (emit (SpotifyFetchTracks query_type u) st) = (None, es, st2)"
  shows "(\<forall>t es' st'. \<not> is_allowed env (filter_text env t) \<longrightarrow>
            enqueue_track env enqueue t es' st' =
              (es'\<lparr>has_not_allowed := True\<rparr>, emit (IsAllowed (filter_text env t)) st'))
    \<and> has_not_allowed es = rejected env st2
    \<and> (fst (spotify_enqueue env c query_type u enqueue pl True st) = Inl nothing_found
         \<longleftrightarrow> track_list es = [] \<and> \<not> rejected env st2)
    \<and> (track_list es = [] \<and> rejected env st2
         \<longrightarrow> fst (spotify_enqueue env c query_type u enqueue pl True st) = Inr [])"
proof -
  have "has_not_allowed (es0 pl) = rejected env (emit (SpotifyFetchTracks query_type u) st)"
    using assms(3) by (simp add: es0_def rejected_emit)
  from enqueue_loop_flag[OF this, of c enqueue True "length listed" 0 listed]
  have flag: "has_not_allowed es = rejected env st2"
    using assms(4) by simp
  have e: "fst (spotify_enqueue env c query_type u enqueue pl True st) =
           (if track_list es = [] \<and> \<not> has_not_allowed es then Inl nothing_found
            else Inr (track_list es))"
    by (rule spotify_enqueue_end[OF assms(1,2,4)])
  show ?thesis
    using flag e enqueue_track_rejects by (auto simp add: nothing_found_def)
qed

lemma env_reject_fields:
  "spotify_fetch_tracks env_reject query_type u = Inr two_tracks"
  "get_spotify_track_info env_reject t = (PNone, t, PNone, PNone, PNone, PNone, PNone)"
  "youtube_fetch_one env_reject ti = Inr (PNone, PNone)"
  "lavalink_fetch_one env_reject q = Inr (PNone, PNone)"
  "youtube_get_call env_reject ti = PStr ''u''"
  "load_tracks env_reject q = Inr (Some (demo_LoadResult good_raw))"
  "process_input env_reject = demo_process_input"
  "is_allowed env_reject s = False"
  by (simp_all add: env_reject_def env_two_def env_play_def env_found_def env0_def)

lemma env_nothing_fields:
  "spotify_fetch_tracks env_nothing query_type u = Inr two_tracks"
  "get_spotify_track_info env_nothing t = (PNone, t, PNone, PNone, PNone, PNone, PNone)"
  "youtube_fetch_one env_nothing ti = Inr (PNone, PNone)"
  "lavalink_fetch_one env_nothing q = Inr (PNone, PNone)"
  "youtube_get_call env_nothing ti = PStr ''u''"
  "load_tracks env_nothing q = Inr None"
  "process_input env_nothing = demo_process_input"
  "LoadResult env_nothing = demo_LoadResult"
  by (simp_all add: env_nothing_def env_empty_def env0_def)

lemma enqueue_fetch_reject:
  "fst (enqueue_fetch env_reject c True ti st) = Objects [Track ''t'' ''a'' ''u'']"
proof -
  have m: "no_cached_value env_reject
             (process_input env_reject (FromValue (youtube_get_call env_reject ti))) False"
    by (simp add: no_cached_value_def env_reject_fields)
  have "fst (enqueue_fetch env_reject c True ti st) =
      Objects (tracks (case Some (demo_LoadResult good_raw) of
                 None \<Rightarrow> LoadResult env_reject load_failed | Some x \<Rightarrow> x))"
    by (rule enqueue_fetch_uncached[where upd=PNone])
      (simp_all add: m, simp_all add: env_reject_fields)
  then show ?thesis by (simp add: good_raw_def)
qed

lemma enqueue_fetch_nothing:
  "fst (enqueue_fetch env_nothing c True ti st) = Objects []"
proof -
  have m: "no_cached_value env_nothing
             (process_input env_nothing (FromValue (youtube_get_call env_nothing ti))) False"
    by (simp add: no_cached_value_def env_nothing_fields)
  have "fst (enqueue_fetch env_nothing c True ti st) =
      Objects (tracks (case None of
                 None \<Rightarrow> LoadResult env_nothing load_failed | Some x \<Rightarrow> x))"
    by (rule enqueue_fetch_uncached[where upd=PNone])
      (simp_all add: m, simp_all add: env_nothing_fields)
  then show ?thesis by (simp add: env_nothing_fields load_failed_def)
qed

lemma loop_all_rejected:
  "fst (enqueue_loop env_reject c1 True True (length two_tracks) 0 two_tracks (es0 pl0) st) = None"
  "track_list (fst (snd (enqueue_loop env_reject c1 True True (length two_tracks) 0 two_tracks
      (es0 pl0) st))) = []"
  "rejected env_reject (snd (snd (enqueue_loop env_reject c1 True True (length two_tracks) 0
      two_tracks (es0 pl0) st)))"
  by (simp_all add: two_tracks_def Let_def case_prod_beta enqueue_fetch_reject notify_def
      enqueue_track_def env_reject_fields es0_def rejected_emit)

lemma loop_nothing_resolved:
  "fst (enqueue_loop env_nothing c1 True True (length two_tracks) 0 two_tracks (es0 pl0) st) = None"
  "track_list (fst (snd (enqueue_loop env_nothing c1 True True (length two_tracks) 0 two_tracks
      (es0 pl0) st))) = []"
  "rejected env_nothing (snd (snd (enqueue_loop env_nothing c1 True True (length two_tracks) 0
      two_tracks (es0 pl0) st))) = rejected env_nothing st"
  by (simp_all add: two_tracks_def Let_def case_prod_beta enqueue_fetch_nothing notify_def
      env_nothing_fields es0_def rejected_emit rejected_enqueue_fetch)

theorem nothing_found_iff_none_filtered_witness:
  "fst (spotify_enqueue env_reject c1 ''playlist'' ''x'' True pl0 True st0) = Inr []
   \<and> rejected env_reject (snd (snd (enqueue_loop env_reject c1 True True (length two_tracks) 0
        two_tracks (es0 pl0) (emit (SpotifyFetchTracks ''playlist'' ''x'') st0))))
   \<and> track_list (fst (enqueue_track env_reject True (Track ''t'' ''a'' ''u'') (es0 pl0) st0)) = []
   \<and> has_not_allowed (fst (enqueue_track env_reject True (Track ''t'' ''a'' ''u'') (es0 pl0) st0))
   \<and> fst (spotify_enqueue env_nothing c1 ''playlist'' ''x'' True pl0 True st0) = Inl nothing_found
   \<and> \<not> rejected env_nothing (snd (snd (enqueue_loop env_nothing c1 True True (length two_tracks) 0
        two_tracks (es0 pl0) (emit (SpotifyFetchTracks ''playlist'' ''x'') st0))))"
proof -
  let ?s = "emit (SpotifyFetchTracks ''playlist'' ''x'') st0"
  let ?A = "enqueue_loop env_reject c1 True True (length two_tracks) 0 two_tracks (es0 pl0) ?s"
  let ?B = "enqueue_loop env_nothing c1 True True (length two_tracks) 0 two_tracks (es0 pl0) ?s"
  have ne: "two_tracks \<noteq> []" by (simp add: two_tracks_def)
  have clean: "\<not> rejected env_reject st0" "\<not> rejected env_nothing st0"
    by (simp_all add: rejected_def st0_def)
  have a: "?A = (None, fst (snd ?A), snd (snd ?A))"
    using loop_all_rejected(1)[of ?s] by (simp add: prod_eq_iff)
  have b: "?B = (None, fst (snd ?B), snd (snd ?B))"
    using loop_nothing_resolved(1)[of ?s] by (simp add: prod_eq_iff)
  have rb: "\<not> rejected env_nothing (snd (snd ?B))"
    using loop_nothing_resolved(3)[of ?s] clean(2) by (simp add: rejected_emit)
  from nothing_found_iff_none_filtered[OF env_reject_fields(1) ne clean(1) a]
    loop_all_rejected(2)[of ?s] loop_all_rejected(3)[of ?s]
  have x: "fst (spotify_enqueue env_reject c1 ''playlist'' ''x'' True pl0 True st0) = Inr []"
    by blast
  from nothing_found_iff_none_filtered[OF env_nothing_fields(1) ne clean(2) b]
    loop_nothing_resolved(2)[of ?s] rb
  have y: "fst (spotify_enqueue env_nothing c1 ''playlist'' ''x'' True pl0 True st0)
             = Inl nothing_found"
    by blast
  from nothing_found_iff_none_filtered[OF env_reject_fields(1) ne clean(1) a]
  have "enqueue_track env_reject True (Track ''t'' ''a'' ''u'') (es0 pl0) st0 =
          ((es0 pl0)\<lparr>has_not_allowed := True\<rparr>,
           emit (IsAllowed (filter_text env_reject (Track ''t'' ''a'' ''u''))) st0)"
    by (simp add: env_reject_fields)
  then have z: "track_list (fst (enqueue_track env_reject True (Track ''t'' ''a'' ''u'') (es0 pl0) st0)) = []
      \<and> has_not_allowed (fst (enqueue_track env_reject True (Track ''t'' ''a'' ''u'') (es0 pl0) st0))"
    by (simp add: es0_def)
  show ?thesis using x y z loop_all_rejected(3)[of ?s] rb by blast
qed

text \<open>
  The claim as stated fails on an empty listing: the guard \<^verbatim>\<open>if total_tracks < 1\<close>
  returns the empty list with a notice; no track was rejected and no fetch error is
  raised.
\<close>

theorem empty_listing_returns_silently:
  "spotify_fetch_tracks env0 ''playlist'' ''x'' = Inr []
   \<and> fst (spotify_enqueue env0 c1 ''playlist'' ''x'' True pl0 True st0) = Inr []
   \<and> \<not> rejected env0 (snd (snd (spotify_enqueue env0 c1 ''playlist'' ''x'' True pl0 True st0)))
   \<and> effects (snd (snd (spotify_enqueue env0 c1 ''playlist'' ''x'' True pl0 True st0)))
       = [SpotifyFetchTracks ''playlist'' ''x'', Lock,
          UpdateEmbed ''This doesn't seem to be a supported Spotify URL or code.'', Lock]"
  by (simp add: spotify_enqueue_def spotify_enqueue_try_def Let_def notify_def env0_def
      rejected_def st0_def)

end
